theory Spec2Isabelle
  imports
    Complex_Main
    "HOL-Library.Char_ord"
    "HOL-Library.List_Lexorder"
    "HOL-Library.Product_Lexorder"
    "HOL-Library.AList"
begin

section \<open>The word pattern matcher of wordfinder.py\<close>

text \<open>
  A shallow embedding of the engine of \<^verbatim>\<open>src/wordfinder.py\<close>: the class
  \<^verbatim>\<open>WordlistCache\<close>, the class \<^verbatim>\<open>PatternMatcher\<close> with all of its methods,
  \<^verbatim>\<open>format_results\<close> and the handler of the search button.

  Conventions of the embedding.
  \<^item> A Python string is a \<^typ>\<open>string\<close>, each \<^typ>\<open>char\<close> standing for one code point
    below 256; the classification of characters follows Unicode on that range.
    Strings are ordered by code point, lexicographically, as Python orders them.
  \<^item> A Python integer is an \<^typ>\<open>int\<close>. \<^verbatim>\<open>int(s)\<close> is unbounded here; the limit on
    the number of digits that recent interpreters impose is not modelled.
  \<^item> A \<^verbatim>\<open>dict\<close> is an association list in insertion order with distinct keys,
    read with \<^const>\<open>map_of\<close> and written with \<^const>\<open>AList.update\<close>; a \<^verbatim>\<open>set\<close> is a
    \<^typ>\<open>'a set\<close>.
  \<^item> \<^verbatim>\<open>time.time()\<close> reads a wall clock the program does not control: the clock is
    a sequence of readings \<open>clock :: nat \<Rightarrow> real\<close> and a counter of the readings
    taken so far. Floating point rounding of the readings is not modelled.
  \<^item> An exception is a value of type \<open>exc\<close>; a method that can raise returns a sum,
    \<open>Inl\<close> carrying the exception, together with the state it leaves behind.
  \<^item> The regular expressions the program writes down itself (for variable definitions,
    length prefixes and variable references) are modelled by one function each. The
    regular expression the program generates from a user pattern is a string, handed to
    the library: \<^verbatim>\<open>re.compile\<close> is a field of the parameter \<open>py\<close> of the
    embedding, the Python runtime, giving \<open>None\<close> where the library raises
    \<^verbatim>\<open>re.error\<close> and the matcher of the compiled expression otherwise.
  \<^item> Python fixes no order for the elements of a set: the texts that
    \<^verbatim>\<open>''.join(CONSONANTS)\<close> and \<^verbatim>\<open>''.join(VOWELS)\<close> evaluate to are two more
    fields of \<open>py\<close>.
  \<^item> The calls to \<^verbatim>\<open>st.warning\<close>, \<^verbatim>\<open>st.error\<close> and \<^verbatim>\<open>st.info\<close> only display
    a diagnostic; they are left out.
\<close>

subsection \<open>Strings\<close>

definition is_digit :: "char \<Rightarrow> bool" where
  "is_digit c \<longleftrightarrow> CHR ''0'' \<le> c \<and> c \<le> CHR ''9''"

definition char_isalpha :: "char \<Rightarrow> bool" where
  "char_isalpha c \<longleftrightarrow>
     (let n = (of_char c :: nat) in
        (65 \<le> n \<and> n \<le> 90) \<or> (97 \<le> n \<and> n \<le> 122) \<or> n = 170 \<or> n = 181 \<or> n = 186 \<or>
        (192 \<le> n \<and> n \<le> 214) \<or> (216 \<le> n \<and> n \<le> 246) \<or> 248 \<le> n)"

definition char_isupper :: "char \<Rightarrow> bool" where
  "char_isupper c \<longleftrightarrow>
     (let n = (of_char c :: nat) in
        (65 \<le> n \<and> n \<le> 90) \<or> (192 \<le> n \<and> n \<le> 214) \<or> (216 \<le> n \<and> n \<le> 222))"

definition char_isspace :: "char \<Rightarrow> bool" where
  "char_isspace c \<longleftrightarrow>
     (let n = (of_char c :: nat) in
        (9 \<le> n \<and> n \<le> 13) \<or> (28 \<le> n \<and> n \<le> 32) \<or> n = 133 \<or> n = 160)"

definition char_lower :: "char \<Rightarrow> char" where
  "char_lower c = (if char_isupper c then char_of (of_char c + (32 :: nat)) else c)"

text \<open>\<^verbatim>\<open>s.isalpha()\<close>: every character is alphabetic and there is at least one.\<close>

definition isalpha :: "string \<Rightarrow> bool" where
  "isalpha s \<longleftrightarrow> s \<noteq> [] \<and> list_all char_isalpha s"

definition lower :: "string \<Rightarrow> string" where
  "lower s = map char_lower s"

definition strip :: "string \<Rightarrow> string" where
  "strip s = rev (dropWhile char_isspace (rev (dropWhile char_isspace s)))"

text \<open>\<^verbatim>\<open>s.replace(c, t)\<close> for a one-character \<open>c\<close>.\<close>

definition replace :: "char \<Rightarrow> string \<Rightarrow> string \<Rightarrow> string" where
  "replace c t s = concat (map (\<lambda>x. if x = c then t else [x]) s)"

text \<open>\<^verbatim>\<open>s.split(c)\<close> for a one-character separator: never an empty list.\<close>

fun split :: "char \<Rightarrow> string \<Rightarrow> string list" where
  "split c [] = [[]]"
| "split c (x # xs) =
     (if x = c then [] # split c xs
      else (case split c xs of [] \<Rightarrow> [[x]] | p # ps \<Rightarrow> (x # p) # ps))"

text \<open>\<^verbatim>\<open>int(s)\<close> on a string of decimal digits.\<close>

definition int_of_digits :: "string \<Rightarrow> int" where
  "int_of_digits s = foldl (\<lambda>a c. 10 * a + (int (of_char c) - 48)) 0 s"

text \<open>\<^verbatim>\<open>str(n)\<close> for a natural number.\<close>

fun digits_of_nat :: "nat \<Rightarrow> string" where
  "digits_of_nat n =
     (if n < 10 then [char_of (48 + n)]
      else digits_of_nat (n div 10) @ [char_of (48 + n mod 10)])"

definition str_of_int :: "int \<Rightarrow> string" where
  "str_of_int i = (if i < 0 then CHR ''-'' # digits_of_nat (nat (- i)) else digits_of_nat (nat i))"

text \<open>\<^verbatim>\<open>sep.join(xs)\<close>.\<close>

fun join :: "string \<Rightarrow> string list \<Rightarrow> string" where
  "join sep [] = []"
| "join sep [x] = x"
| "join sep (x # y # ys) = x @ sep @ join sep (y # ys)"

subsection \<open>The word list\<close>

definition VOWELS :: "char set" where
  "VOWELS = set ''aeiou''"

definition CONSONANTS :: "char set" where
  "CONSONANTS = set ''abcdefghijklmnopqrstuvwxyz'' - VOWELS"

record wordlist_cache =
  wordlist :: "string list"
  word_by_length :: "(int \<times> string list) list"
  words_set :: "string set"

text \<open>\<^verbatim>\<open>d[k].append(w)\<close> on a \<^verbatim>\<open>defaultdict(list)\<close>.\<close>

definition dict_append :: "('k \<times> 'v list) list \<Rightarrow> 'k \<Rightarrow> 'v \<Rightarrow> ('k \<times> 'v list) list" where
  "dict_append d k w = AList.update k ((case map_of d k of None \<Rightarrow> [] | Some ws \<Rightarrow> ws) @ [w]) d"

text \<open>\<^verbatim>\<open>d.get(k, [])\<close>.\<close>

definition get_list :: "('k \<times> 'v list) list \<Rightarrow> 'k \<Rightarrow> 'v list" where
  "get_list d k = (case map_of d k of None \<Rightarrow> [] | Some ws \<Rightarrow> ws)"

text \<open>
  \<^verbatim>\<open>WordlistCache.load_wordlist\<close> on the lines of a file that was opened and read
  without a fault. (On a fault the method reports it and returns 0.)
\<close>

definition load_wordlist :: "string list \<Rightarrow> wordlist_cache" where
  "load_wordlist file_lines =
     (let ws = filter (\<lambda>word. word \<noteq> [] \<and> isalpha word) (map (\<lambda>line. lower (strip line)) file_lines)
      in \<lparr> wordlist = sort ws,
           word_by_length =
             map (\<lambda>(k, b). (k, sort b)) (foldl (\<lambda>d word. dict_append d (int (length word)) word) [] ws),
           words_set = set ws \<rparr>)"

subsection \<open>The regular expressions of the query language\<close>

text \<open>A variable name, \<^verbatim>\<open>[A-R]\<close>.\<close>

definition is_var :: "char \<Rightarrow> bool" where
  "is_var c \<longleftrightarrow> CHR ''A'' \<le> c \<and> c \<le> CHR ''R''"

text \<open>
  The tail \<^verbatim>\<open>(.*)\)\<close> of a variable definition: the dot does not match a line feed and
  the star is greedy, so the group ends before the last closing parenthesis of the
  first line.
\<close>

definition match_tail_paren :: "string \<Rightarrow> string option" where
  "match_tail_paren s =
     (let line = takeWhile (\<lambda>c. c \<noteq> CHR 0x0A) s
      in if CHR '')'' \<in> set line
         then Some (rev (tl (dropWhile (\<lambda>c. c \<noteq> CHR '')'') (rev line))))
         else None)"

text \<open>
  \<^verbatim>\<open>re.match(r'([A-R])=\((\d+)(?:-(\d+))?:(.*)\)', definition)\<close>: the four groups of
  the match, the third one \<open>None\<close> when the optional part is absent.
\<close>

definition match_definition_range :: "string \<Rightarrow> (string \<times> string \<times> string option \<times> string) option" where
  "match_definition_range s =
     (case s of
        n # e # p # rest \<Rightarrow>
          if is_var n \<and> e = CHR ''='' \<and> p = CHR ''(''
          then (let d1 = takeWhile is_digit rest; r1 = dropWhile is_digit rest
                in if d1 = [] then None
                   else (case r1 of
                           [] \<Rightarrow> None
                         | c # r2 \<Rightarrow>
                             if c = CHR '':''
                             then map_option (\<lambda>pat. ([n], d1, None, pat)) (match_tail_paren r2)
                             else if c = CHR ''-''
                             then (let d2 = takeWhile is_digit r2; r3 = dropWhile is_digit r2
                                   in if d2 \<noteq> [] \<and> r3 \<noteq> [] \<and> hd r3 = CHR '':''
                                      then map_option (\<lambda>pat. ([n], d1, Some d2, pat)) (match_tail_paren (tl r3))
                                      else None)
                             else None))
          else None
      | _ \<Rightarrow> None)"

text \<open>\<^verbatim>\<open>re.match(r'([A-R])=\((\d+):(.*)\)', definition)\<close>.\<close>

definition match_definition_exact :: "string \<Rightarrow> (string \<times> string \<times> string) option" where
  "match_definition_exact s =
     (case s of
        n # e # p # rest \<Rightarrow>
          if is_var n \<and> e = CHR ''='' \<and> p = CHR ''(''
          then (let d1 = takeWhile is_digit rest; r1 = dropWhile is_digit rest
                in if d1 \<noteq> [] \<and> r1 \<noteq> [] \<and> hd r1 = CHR '':''
                   then map_option (\<lambda>pat. ([n], d1, pat)) (match_tail_paren (tl r1))
                   else None)
          else None
      | _ \<Rightarrow> None)"

text \<open>\<^verbatim>\<open>re.match(r'^(\d+):(.*)', pattern_str)\<close>.\<close>

definition match_length_exact :: "string \<Rightarrow> (string \<times> string) option" where
  "match_length_exact s =
     (let d1 = takeWhile is_digit s; r1 = dropWhile is_digit s
      in if d1 \<noteq> [] \<and> r1 \<noteq> [] \<and> hd r1 = CHR '':''
         then Some (d1, takeWhile (\<lambda>c. c \<noteq> CHR 0x0A) (tl r1))
         else None)"

text \<open>\<^verbatim>\<open>re.match(r'^(\d+)-(\d+):(.*)', pattern_str)\<close>.\<close>

definition match_length_range :: "string \<Rightarrow> (string \<times> string \<times> string) option" where
  "match_length_range s =
     (let d1 = takeWhile is_digit s; r1 = dropWhile is_digit s
      in if d1 \<noteq> [] \<and> r1 \<noteq> [] \<and> hd r1 = CHR ''-''
         then (let d2 = takeWhile is_digit (tl r1); r2 = dropWhile is_digit (tl r1)
               in if d2 \<noteq> [] \<and> r2 \<noteq> [] \<and> hd r2 = CHR '':''
                  then Some (d1, d2, takeWhile (\<lambda>c. c \<noteq> CHR 0x0A) (tl r2))
                  else None)
         else None)"

text \<open>\<^verbatim>\<open>re.findall(r'(~?[A-R])', pattern)\<close>.\<close>

fun findall_var_refs :: "string \<Rightarrow> string list" where
  "findall_var_refs [] = []"
| "findall_var_refs [c] = (if is_var c then [[c]] else [])"
| "findall_var_refs (c # d # cs) =
     (if c = CHR ''~'' \<and> is_var d then [c, d] # findall_var_refs cs
      else if is_var c then [c] # findall_var_refs (d # cs)
      else findall_var_refs (d # cs))"

text \<open>\<^verbatim>\<open>re.match(r'(~?)([A-R])', s)\<close>: the two groups.\<close>

definition match_var_ref :: "string \<Rightarrow> (string \<times> string) option" where
  "match_var_ref s =
     (case s of
        [] \<Rightarrow> None
      | c # cs \<Rightarrow>
          if c = CHR ''~'' \<and> cs \<noteq> [] \<and> is_var (hd cs) then Some (''~'', [hd cs])
          else if is_var c then Some ([], [c])
          else None)"

text \<open>
  \<^verbatim>\<open>re.match(r'^([A-R])$', s)\<close>: the group. The dollar also matches before a line feed
  that ends the string.
\<close>

definition match_bare_var :: "string \<Rightarrow> string option" where
  "match_bare_var s =
     (case s of
        [] \<Rightarrow> None
      | c # cs \<Rightarrow> if is_var c \<and> (cs = [] \<or> cs = [CHR 0x0A]) then Some [c] else None)"

text \<open>\<^verbatim>\<open>re.match(r'^~([A-R])$', s)\<close>: the group.\<close>

definition match_tilde_var :: "string \<Rightarrow> string option" where
  "match_tilde_var s =
     (case s of
        t # c # cs \<Rightarrow>
          if t = CHR ''~'' \<and> is_var c \<and> (cs = [] \<or> cs = [CHR 0x0A]) then Some [c] else None
      | _ \<Rightarrow> None)"

text \<open>
  \<^verbatim>\<open>re.escape(c)\<close> for one character: a backslash before each of
  \<^verbatim>\<open>()[]{}?*+-|^$\.&~#\<close>, the space and the five control characters of white space.
\<close>

definition re_special :: "char \<Rightarrow> bool" where
  "re_special c \<longleftrightarrow>
     c \<in> set ''()[]{}?*+-|^$.&~# '' \<or> c = CHR 0x5C \<or>
     c \<in> {CHR 0x09, CHR 0x0A, CHR 0x0D, CHR 0x0B, CHR 0x0C}"

definition re_escape :: "char \<Rightarrow> string" where
  "re_escape c = (if re_special c then [CHR 0x5C, c] else [c])"

subsection \<open>The pattern matcher and its clock\<close>

datatype exc = TimeoutError | TypeError | KeyError

text \<open>
  The dictionary that \<^verbatim>\<open>parse_variable_definition\<close> returns, its keys
  \<^verbatim>\<open>var_name\<close>, \<^verbatim>\<open>min_len\<close>, \<^verbatim>\<open>max_len\<close> and \<^verbatim>\<open>pattern\<close>, and the dictionary
  of one reference in a clause, its keys \<^verbatim>\<open>name\<close>, \<^verbatim>\<open>len\<close>, \<^verbatim>\<open>pattern\<close> and
  \<^verbatim>\<open>reversed\<close>.
\<close>

record var_info =
  vi_name :: string
  vi_min_len :: int
  vi_max_len :: int
  vi_pattern :: string

record var_detail =
  vd_name :: string
  vd_len :: int
  vd_pattern :: string
  vd_reversed :: bool

text \<open>
  The fields of \<^verbatim>\<open>PatternMatcher\<close>, the three of the word list first, and the wall
  clock: \<open>clock s n\<close> is the value of the \<open>n\<close>-th call of \<^verbatim>\<open>time.time()\<close> and
  \<open>ticks s\<close> the number of calls made so far.
\<close>

record pattern_matcher = wordlist_cache +
  timeout :: real
  start_time :: real
  regex_cache :: "(string \<times> string) list"
  clock :: "nat \<Rightarrow> real"
  ticks :: nat

type_synonym 'a raising = "(exc + 'a) \<times> pattern_matcher"

text \<open>
  What the Python runtime contributes and the program does not fix: \<^verbatim>\<open>re.compile\<close>
  (\<open>None\<close> where it raises \<^verbatim>\<open>re.error\<close>, the matcher of the compiled expression
  otherwise), and the order in which this process iterates over the sets
  \<^verbatim>\<open>CONSONANTS\<close> and \<^verbatim>\<open>VOWELS\<close>, given as the two strings that
  \<^verbatim>\<open>''.join(CONSONANTS)\<close> and \<^verbatim>\<open>''.join(VOWELS)\<close> evaluate to.
\<close>

record python_runtime =
  re_compile :: "string \<Rightarrow> (string \<Rightarrow> bool) option"
  join_consonants :: string
  join_vowels :: string

type_synonym match_result = "string \<times> string option \<times> (string \<times> string) list"

definition time_time :: "pattern_matcher \<Rightarrow> real \<times> pattern_matcher" where
  "time_time s = (clock s (ticks s), s\<lparr>ticks := Suc (ticks s)\<rparr>)"

text \<open>\<^verbatim>\<open>PatternMatcher(wordlist, words_set, word_by_length, timeout=t)\<close>.\<close>

definition PatternMatcher :: "wordlist_cache \<Rightarrow> real \<Rightarrow> (nat \<Rightarrow> real) \<Rightarrow> nat \<Rightarrow> pattern_matcher" where
  "PatternMatcher wc t clk n =
     \<lparr> wordlist = wordlist wc, word_by_length = word_by_length wc, words_set = words_set wc,
       timeout = t, start_time = clk n, regex_cache = [], clock = clk, ticks = Suc n \<rparr>"

definition time_check :: "pattern_matcher \<Rightarrow> unit raising" where
  "time_check s =
     (case time_time s of
        (now, s') \<Rightarrow>
          if now - start_time s' > timeout s' then (Inl TimeoutError, s') else (Inr (), s'))"

subsection \<open>Compiling a pattern\<close>

text \<open>The \<^verbatim>\<open>while\<close> loop of \<^verbatim>\<open>pattern_to_regex\<close>, on the rest of the pattern from \<open>i\<close> on.\<close>

function translate :: "string \<Rightarrow> string" where
  "translate [] = []"
| "translate (c # cs) =
     (if c = CHR ''.'' then ''.'' @ translate cs
      else if c = CHR ''*'' then ''.*'' @ translate cs
      else if c = CHR ''['' then
        (if CHR '']'' \<in> set cs
         then c # takeWhile (\<lambda>x. x \<noteq> CHR '']'') cs @ '']'' @
              translate (tl (dropWhile (\<lambda>x. x \<noteq> CHR '']'') cs))
         else re_escape c @ translate cs)
      else if c = CHR 0x5C then
        (case cs of
           [] \<Rightarrow> re_escape c
         | d # ds \<Rightarrow> re_escape d @ translate ds)
      else re_escape c @ translate cs)"
  by pat_completeness auto
termination
proof (relation "measure length")
  fix c :: char and cs :: string
  have "length (dropWhile (\<lambda>x. x \<noteq> CHR '']'') cs) \<le> length cs"
    by (rule length_dropWhile_le)
  then show "(tl (dropWhile (\<lambda>x. x \<noteq> CHR '']'') cs), c # cs) \<in> measure length"
    by simp
qed auto

definition pattern_to_regex ::
  "python_runtime \<Rightarrow> string \<Rightarrow> pattern_matcher \<Rightarrow> string \<times> pattern_matcher"
where
  "pattern_to_regex py pattern s =
     (case map_of (regex_cache s) pattern of
        Some regex \<Rightarrow> (regex, s)
      | None \<Rightarrow>
          (let pattern1 = replace CHR ''#'' (''['' @ join_consonants py @ '']'') pattern;
               pattern2 = replace CHR ''@'' (''['' @ join_vowels py @ '']'') pattern1;
               final_regex = ''^'' @ translate pattern2 @ ''$''
           in (final_regex, s\<lparr>regex_cache := AList.update pattern2 final_regex (regex_cache s)\<rparr>)))"

subsection \<open>Matching one word\<close>

definition matches_pattern ::
  "python_runtime \<Rightarrow> string \<Rightarrow> string \<Rightarrow> (int \<times> int) option \<Rightarrow> pattern_matcher \<Rightarrow> bool \<times> pattern_matcher"
where
  "matches_pattern py word pattern length_constraint s =
     (if (case length_constraint of
            None \<Rightarrow> False
          | Some (mn, mx) \<Rightarrow> \<not> (mn \<le> int (length word) \<and> int (length word) \<le> mx))
      then (False, s)
      else if pattern = ''*'' then (True, s)
      else if pattern = [] then (word = [], s)
      else (case pattern_to_regex py pattern s of
              (regex, s') \<Rightarrow>
                (case re_compile py regex of
                   None \<Rightarrow> (False, s')
                 | Some m \<Rightarrow> (m word, s'))))"

definition parse_variable_definition :: "string \<Rightarrow> var_info option" where
  "parse_variable_definition definition =
     (case (case match_definition_range definition of
              None \<Rightarrow>
                (case match_definition_exact definition of
                   None \<Rightarrow> None
                 | Some (n, l, p) \<Rightarrow> Some (n, int_of_digits l, int_of_digits l, p))
            | Some (n, mn, mx, p) \<Rightarrow>
                Some (n, int_of_digits mn,
                      (case mx of None \<Rightarrow> int_of_digits mn | Some m \<Rightarrow> int_of_digits m), p))
      of
        None \<Rightarrow> None
      | Some (n, mn, mx, p) \<Rightarrow>
          if mn \<le> 0 \<or> mx < mn then None
          else Some \<lparr> vi_name = n, vi_min_len = mn, vi_max_len = mx,
                      vi_pattern = (if p \<noteq> [] then p else ''*'') \<rparr>)"

definition length_constraint_from_pattern :: "string \<Rightarrow> (int \<times> int) option \<times> string" where
  "length_constraint_from_pattern pattern_str =
     (case match_length_exact pattern_str of
        Some (l, rest_pattern) \<Rightarrow>
          if int_of_digits l > 0 then (Some (int_of_digits l, int_of_digits l), rest_pattern)
          else (None, pattern_str)
      | None \<Rightarrow>
          (case match_length_range pattern_str of
             Some (min_l, max_l, rest_pattern) \<Rightarrow>
               if 0 < int_of_digits min_l \<and> int_of_digits min_l \<le> int_of_digits max_l
               then (Some (int_of_digits min_l, int_of_digits max_l), rest_pattern)
               else (None, pattern_str)
           | None \<Rightarrow> (None, pattern_str)))"

subsection \<open>Anagrams\<close>

text \<open>\<^verbatim>\<open>for char in s: d[char] += 1\<close> on an empty \<^verbatim>\<open>defaultdict(int)\<close>.\<close>

definition count_chars :: "string \<Rightarrow> (char \<times> int) list" where
  "count_chars s =
     foldl (\<lambda>d c. AList.update c ((case map_of d c of None \<Rightarrow> 0 | Some n \<Rightarrow> n) + 1) d) [] s"

text \<open>\<^verbatim>\<open>d[c]\<close> on a \<^verbatim>\<open>defaultdict(int)\<close>.\<close>

definition get_count :: "(char \<times> int) list \<Rightarrow> char \<Rightarrow> int" where
  "get_count d c = (case map_of d c of None \<Rightarrow> 0 | Some n \<Rightarrow> n)"

text \<open>
  The body of the candidate loop of \<^verbatim>\<open>process_anagram_pattern\<close> after its deadline
  check: whether the word is appended to \<^verbatim>\<open>matches\<close>.
\<close>

definition anagram_accepts ::
  "(char \<times> int) list \<Rightarrow> string \<Rightarrow> int \<Rightarrow> int \<Rightarrow> int \<Rightarrow> int option \<Rightarrow> string \<Rightarrow> bool"
where
  "anagram_accepts base_counts base_letters dots stars min_len max_len word =
     (if (case max_len of None \<Rightarrow> False | Some mx \<Rightarrow> int (length word) \<noteq> mx) then False
      else if int (length word) < min_len then False
      else if \<not> list_all (\<lambda>(char, count). \<not> get_count (count_chars word) char < count) base_counts
      then False
      else if stars = 0 then int (length word) - int (length base_letters) = dots
      else True)"

fun anagram_loop ::
  "(string \<Rightarrow> bool) \<Rightarrow> nat \<Rightarrow> string list \<Rightarrow> string list \<Rightarrow> pattern_matcher \<Rightarrow> string list raising"
where
  "anagram_loop accepts i [] matches s = (Inr matches, s)"
| "anagram_loop accepts i (word # ws) matches s =
     (case (if i mod 1000 = 0 then time_check s else (Inr (), s)) of
        (Inl e, s') \<Rightarrow> (Inl e, s')
      | (Inr _, s') \<Rightarrow>
          anagram_loop accepts (Suc i) ws (if accepts word then matches @ [word] else matches) s')"

definition process_anagram_pattern :: "string \<Rightarrow> pattern_matcher \<Rightarrow> string list option raising" where
  "process_anagram_pattern pattern_str s =
     (if \<not> (pattern_str \<noteq> [] \<and> hd pattern_str = CHR ''/'') then (Inr None, s)
      else
        (case time_check s of
           (Inl e, s1) \<Rightarrow> (Inl e, s1)
         | (Inr _, s1) \<Rightarrow>
             (let content = tl pattern_str;
                  dots = int (count_list content CHR ''.'');
                  stars = int (count_list content CHR ''*'');
                  base_letters = sort (filter char_isalpha content);
                  base_counts = count_chars base_letters;
                  min_len = int (length base_letters) + dots;
                  max_len = (if stars > 0 then None else Some (int (length base_letters) + dots));
                  candidate_words =
                    (case max_len of
                       Some mx \<Rightarrow>
                         if min_len = mx then get_list (word_by_length s1) min_len
                         else concat (map (get_list (word_by_length s1)) [min_len..mx])
                     | None \<Rightarrow>
                         concat (map snd (filter (\<lambda>(l, ws). l \<ge> min_len) (word_by_length s1))))
              in (case anagram_loop
                         (anagram_accepts base_counts base_letters dots stars min_len max_len)
                         0 candidate_words [] s1 of
                    (Inl e, s2) \<Rightarrow> (Inl e, s2)
                  | (Inr matches, s2) \<Rightarrow> (Inr (Some matches), s2)))))"

subsection \<open>Simple patterns\<close>

fun simple_loop ::
  "(string \<Rightarrow> bool) \<Rightarrow> nat \<Rightarrow> string list \<Rightarrow> string list \<Rightarrow> pattern_matcher \<Rightarrow> string list raising"
where
  "simple_loop compiled_regex i [] matches s = (Inr matches, s)"
| "simple_loop compiled_regex i (word # ws) matches s =
     (case (if i mod 2000 = 0 then time_check s else (Inr (), s)) of
        (Inl e, s') \<Rightarrow> (Inl e, s')
      | (Inr _, s') \<Rightarrow>
          simple_loop compiled_regex (Suc i) ws
            (if compiled_regex word then matches @ [word] else matches) s')"

definition find_matches_simple_pattern ::
  "python_runtime \<Rightarrow> string \<Rightarrow> pattern_matcher \<Rightarrow> string list raising"
where
  "find_matches_simple_pattern py pattern_str s =
     (case time_check s of
        (Inl e, s1) \<Rightarrow> (Inl e, s1)
      | (Inr _, s1) \<Rightarrow>
          (case length_constraint_from_pattern pattern_str of
             (length_constraint, clean_pattern) \<Rightarrow>
               (let candidate_words =
                      (case length_constraint of
                         Some (mn, mx) \<Rightarrow> concat (map (get_list (word_by_length s1)) [mn..mx])
                       | None \<Rightarrow> wordlist s1)
                in if candidate_words = [] then (Inr [], s1)
                   else (case pattern_to_regex py clean_pattern s1 of
                           (regex, s2) \<Rightarrow>
                             (case re_compile py regex of
                                None \<Rightarrow> (Inr [], s2)
                              | Some compiled_regex \<Rightarrow>
                                  simple_loop compiled_regex 0 candidate_words [] s2)))))"

subsection \<open>The equation solver\<close>

text \<open>\<^verbatim>\<open>w[a:b]\<close> for indices that are not negative.\<close>

definition slice :: "string \<Rightarrow> int \<Rightarrow> int \<Rightarrow> string" where
  "slice w a b = drop (nat a) (take (nat b) w)"

text \<open>\<^verbatim>\<open>s.startswith('~')\<close> and \<^verbatim>\<open>s.startswith('/')\<close>.\<close>

definition startswith :: "string \<Rightarrow> char \<Rightarrow> bool" where
  "startswith s c \<longleftrightarrow> s \<noteq> [] \<and> hd s = c"

text \<open>
  The loop over the references of a clause that cuts a candidate word into segments
  (\<^verbatim>\<open>for vd in var_details\<close> in the one-clause case, \<^verbatim>\<open>for s_info in structure1\<close>
  in the two-clause case; the two bodies do the same). \<open>None\<close> when a segment fails
  (the \<^verbatim>\<open>break\<close>), the bindings otherwise.
\<close>

fun check_segments ::
  "python_runtime \<Rightarrow> string \<Rightarrow> int \<Rightarrow> var_detail list \<Rightarrow> (string \<times> string) list \<Rightarrow>
   pattern_matcher \<Rightarrow> (string \<times> string) list option \<times> pattern_matcher"
where
  "check_segments py word current_pos [] decomp s = (Some decomp, s)"
| "check_segments py word current_pos (vd # vds) decomp s =
     (let part = slice word current_pos (current_pos + vd_len vd);
          part_to_check = (if vd_reversed vd then rev part else part)
      in (case matches_pattern py part_to_check (vd_pattern vd)
                 (Some (vd_len vd, vd_len vd)) s of
            (False, s') \<Rightarrow> (None, s')
          | (True, s') \<Rightarrow>
              check_segments py word (current_pos + vd_len vd) vds
                (AList.update (vd_name vd) part_to_check decomp) s'))"

text \<open>
  How the \<^verbatim>\<open>while\<close> loop that reads the references of a single clause ends: at the
  end of the clause, by \<^verbatim>\<open>return []\<close>, or by \<^verbatim>\<open>valid_structure = False; break\<close>.
\<close>

datatype 'a parse_exit = Parsed 'a | Rejected | Invalid

function parse_refs ::
  "(string \<times> var_info) list \<Rightarrow> string \<Rightarrow> int \<Rightarrow> var_detail list \<Rightarrow> pattern_matcher \<Rightarrow>
   (int \<times> var_detail list) parse_exit raising"
where
  "parse_refs variables rest total_len var_details s =
     (if rest = [] then (Inr (Parsed (total_len, var_details)), s)
      else
        (case time_check s of
           (Inl e, s') \<Rightarrow> (Inl e, s')
         | (Inr _, s') \<Rightarrow>
             (case match_var_ref rest of
                None \<Rightarrow> (Inr Invalid, s')
              | Some (ref, name) \<Rightarrow>
                  (case map_of variables name of
                     None \<Rightarrow> (Inr Rejected, s')
                   | Some var_info \<Rightarrow>
                       if vi_min_len var_info \<noteq> vi_max_len var_info then (Inr Rejected, s')
                       else parse_refs variables (drop (length ref + length name) rest)
                              (total_len + vi_min_len var_info)
                              (var_details @
                                 [\<lparr> vd_name = name, vd_len = vi_min_len var_info,
                                    vd_pattern = vi_pattern var_info,
                                    vd_reversed = (ref = ''~'') \<rparr>])
                              s'))))"
  by pat_completeness auto
termination
  by (relation "measure (\<lambda>(variables, rest, total_len, var_details, s). length rest)")
     (auto simp: match_var_ref_def split: list.splits if_splits)

declare parse_refs.simps [simp del]

fun scan_single ::
  "python_runtime \<Rightarrow> var_detail list \<Rightarrow> string list \<Rightarrow> match_result list \<Rightarrow> pattern_matcher \<Rightarrow>
   match_result list raising"
where
  "scan_single py var_details [] results_single s = (Inr results_single, s)"
| "scan_single py var_details (word # ws) results_single s =
     (case time_check s of
        (Inl e, s') \<Rightarrow> (Inl e, s')
      | (Inr _, s') \<Rightarrow>
          (case check_segments py word 0 var_details [] s' of
             (None, s'') \<Rightarrow> scan_single py var_details ws results_single s''
           | (Some decomp, s'') \<Rightarrow>
               scan_single py var_details ws (results_single @ [(word, None, decomp)]) s''))"

text \<open>The branch \<^verbatim>\<open>len(patterns) == 1\<close>.\<close>

definition solve_single ::
  "python_runtime \<Rightarrow> (string \<times> var_info) list \<Rightarrow> string \<Rightarrow> pattern_matcher \<Rightarrow> match_result list raising"
where
  "solve_single py variables pattern s =
     (let var_refs = findall_var_refs pattern
      in if replace CHR ''~'' [] (concat var_refs) = replace CHR ''~'' [] pattern
         then (case parse_refs variables pattern 0 [] s of
                 (Inl e, s') \<Rightarrow> (Inl e, s')
               | (Inr Rejected, s') \<Rightarrow> (Inr [], s')
               | (Inr Invalid, s') \<Rightarrow> (Inr [], s')
               | (Inr (Parsed (total_len, var_details)), s') \<Rightarrow>
                   scan_single py var_details (get_list (word_by_length s') total_len) [] s')
         else (Inr [], s))"

text \<open>The two nested loops that fill \<^verbatim>\<open>candidates_A\<close>.\<close>

fun collect_words ::
  "python_runtime \<Rightarrow> string \<Rightarrow> int \<Rightarrow> string list \<Rightarrow> string list \<Rightarrow> pattern_matcher \<Rightarrow>
   string list raising"
where
  "collect_words py p l [] candidates_A s = (Inr candidates_A, s)"
| "collect_words py p l (word # ws) candidates_A s =
     (case time_check s of
        (Inl e, s') \<Rightarrow> (Inl e, s')
      | (Inr _, s') \<Rightarrow>
          (case matches_pattern py word p (Some (l, l)) s' of
             (b, s'') \<Rightarrow>
               collect_words py p l ws
                 (if b then candidates_A @ [word] else candidates_A) s''))"

fun collect_lengths ::
  "python_runtime \<Rightarrow> string \<Rightarrow> int list \<Rightarrow> string list \<Rightarrow> pattern_matcher \<Rightarrow> string list raising"
where
  "collect_lengths py p [] candidates_A s = (Inr candidates_A, s)"
| "collect_lengths py p (l # ls) candidates_A s =
     (case collect_words py p l (get_list (word_by_length s) l) candidates_A s of
        (Inl e, s') \<Rightarrow> (Inl e, s')
      | (Inr candidates_A', s') \<Rightarrow> collect_lengths py p ls candidates_A' s')"

text \<open>\<^verbatim>\<open>tuple(sorted((word1, word2)))\<close>.\<close>

definition sorted_pair :: "string \<Rightarrow> string \<Rightarrow> string \<times> string" where
  "sorted_pair word1 word2 = (if word2 < word1 then (word2, word1) else (word1, word2))"

fun pair_loop ::
  "string \<Rightarrow> string set \<Rightarrow> string list \<Rightarrow> (string \<times> string) set \<Rightarrow> match_result list \<Rightarrow>
   pattern_matcher \<Rightarrow> match_result list raising"
where
  "pair_loop var_name candidate_set [] found_pairs results_paired s = (Inr results_paired, s)"
| "pair_loop var_name candidate_set (word1 # ws) found_pairs results_paired s =
     (case time_check s of
        (Inl e, s') \<Rightarrow> (Inl e, s')
      | (Inr _, s') \<Rightarrow>
          (let word2 = rev word1
           in if word1 = word2 then pair_loop var_name candidate_set ws found_pairs results_paired s'
              else if word2 \<in> candidate_set
              then (let pair = sorted_pair word1 word2
                    in if pair \<notin> found_pairs
                       then pair_loop var_name candidate_set ws (insert pair found_pairs)
                              (results_paired @ [(word1, Some word2, [(var_name, word1)])]) s'
                       else pair_loop var_name candidate_set ws found_pairs results_paired s')
              else pair_loop var_name candidate_set ws found_pairs results_paired s'))"

text \<open>
  The first relation of the branch \<^verbatim>\<open>len(patterns) == 2\<close>: \<open>None\<close> for its
  \<^verbatim>\<open>return []\<close>, otherwise \<^verbatim>\<open>results_paired\<close> and \<^verbatim>\<open>handled\<close> as it leaves them.
\<close>

definition self_reverse_pairs ::
  "python_runtime \<Rightarrow> (string \<times> var_info) list \<Rightarrow> string \<Rightarrow> string \<Rightarrow> pattern_matcher \<Rightarrow>
   (match_result list \<times> bool) option raising"
where
  "self_reverse_pairs py variables p1_str p2_str s =
     (case (match_bare_var p1_str, match_tilde_var p2_str) of
        (Some var_name, Some name2) \<Rightarrow>
          if var_name = name2
          then (case map_of variables var_name of
                  None \<Rightarrow> (Inr None, s)
                | Some var_info \<Rightarrow>
                    (case collect_lengths py (vi_pattern var_info)
                            [vi_min_len var_info..vi_max_len var_info] [] s of
                       (Inl e, s') \<Rightarrow> (Inl e, s')
                     | (Inr candidates_A, s') \<Rightarrow>
                         (case pair_loop var_name (set candidates_A) candidates_A {} [] s' of
                            (Inl e, s'') \<Rightarrow> (Inl e, s'')
                          | (Inr results_paired, s'') \<Rightarrow> (Inr (Some (results_paired, True)), s''))))
          else (Inr (Some ([], False)), s)
      | _ \<Rightarrow> (Inr (Some ([], False)), s))"

text \<open>
  The loop \<^verbatim>\<open>for ref in vars1\<close> of the second relation: \<open>None\<close> when it leaves with
  \<^verbatim>\<open>valid_config = False\<close>, otherwise \<^verbatim>\<open>total_len\<close> and \<^verbatim>\<open>structure1\<close>.
\<close>

fun build_structure ::
  "(string \<times> var_info) list \<Rightarrow> string list \<Rightarrow> int \<Rightarrow> var_detail list \<Rightarrow> pattern_matcher \<Rightarrow>
   (int \<times> var_detail list) option raising"
where
  "build_structure variables [] total_len structure1 s = (Inr (Some (total_len, structure1)), s)"
| "build_structure variables (ref # refs) total_len structure1 s =
     (case time_check s of
        (Inl e, s') \<Rightarrow> (Inl e, s')
      | (Inr _, s') \<Rightarrow>
          (let is_reversed = startswith ref CHR ''~'';
               name = replace CHR ''~'' [] ref
           in (case map_of variables name of
                 None \<Rightarrow> (Inr None, s')
               | Some v_info \<Rightarrow>
                   if vi_min_len v_info \<noteq> vi_max_len v_info then (Inr None, s')
                   else build_structure variables refs (total_len + vi_min_len v_info)
                          (structure1 @
                             [\<lparr> vd_name = name, vd_len = vi_min_len v_info,
                                vd_pattern = vi_pattern v_info, vd_reversed = is_reversed \<rparr>])
                          s')))"

text \<open>The loop \<^verbatim>\<open>for ref2 in vars2\<close> that builds \<^verbatim>\<open>word2\<close>.\<close>

fun build_word2 :: "(string \<times> string) list \<Rightarrow> string list \<Rightarrow> string \<Rightarrow> exc + string" where
  "build_word2 parts [] word2 = Inr word2"
| "build_word2 parts (ref2 # refs) word2 =
     (case map_of parts (replace CHR ''~'' [] ref2) of
        None \<Rightarrow> Inl KeyError
      | Some val \<Rightarrow>
          build_word2 parts refs (word2 @ (if startswith ref2 CHR ''~'' then rev val else val)))"

fun scan_reversal ::
  "python_runtime \<Rightarrow> var_detail list \<Rightarrow> string list \<Rightarrow> string list \<Rightarrow>
   (string \<times> string) list set \<Rightarrow> match_result list \<Rightarrow> pattern_matcher \<Rightarrow> match_result list raising"
where
  "scan_reversal py structure1 vars2 [] found_decompositions results_paired s =
     (Inr results_paired, s)"
| "scan_reversal py structure1 vars2 (word1 # ws) found_decompositions results_paired s =
     (case time_check s of
        (Inl e, s') \<Rightarrow> (Inl e, s')
      | (Inr _, s') \<Rightarrow>
          (case check_segments py word1 0 structure1 [] s' of
             (None, s'') \<Rightarrow>
               scan_reversal py structure1 vars2 ws found_decompositions results_paired s''
           | (Some parts, s'') \<Rightarrow>
               (case build_word2 parts vars2 [] of
                  Inl _ \<Rightarrow>
                    scan_reversal py structure1 vars2 ws found_decompositions
                      results_paired s''
                | Inr word2 \<Rightarrow>
                    if word2 \<in> words_set s''
                    then (let decomp_tuple = sort parts
                          in if word1 = word2 \<and> decomp_tuple \<in> found_decompositions
                             then scan_reversal py structure1 vars2 ws found_decompositions
                                    results_paired s''
                             else scan_reversal py structure1 vars2 ws
                                    (insert decomp_tuple found_decompositions)
                                    (results_paired @ [(word1, Some word2, parts)]) s'')
                    else scan_reversal py structure1 vars2 ws found_decompositions
                           results_paired s'')))"

text \<open>The branch \<^verbatim>\<open>len(patterns) == 2\<close>.\<close>

definition solve_pair ::
  "python_runtime \<Rightarrow> (string \<times> var_info) list \<Rightarrow> string \<Rightarrow> string \<Rightarrow> pattern_matcher \<Rightarrow>
   match_result list raising"
where
  "solve_pair py variables p1_str p2_str s =
     (case self_reverse_pairs py variables p1_str p2_str s of
        (Inl e, s1) \<Rightarrow> (Inl e, s1)
      | (Inr None, s1) \<Rightarrow> (Inr [], s1)
      | (Inr (Some (results_paired, handled)), s1) \<Rightarrow>
          (let vars1 = findall_var_refs p1_str;
               vars2 = findall_var_refs p2_str
           in if length vars1 > 0 \<and> length vars1 = length vars2 \<and>
                 replace CHR ''~'' [] (concat vars1) = replace CHR ''~'' [] p1_str \<and>
                 replace CHR ''~'' [] (concat vars2) = replace CHR ''~'' [] p2_str \<and>
                 map (replace CHR ''~'' []) vars1 = rev (map (replace CHR ''~'' []) vars2)
              then (case build_structure variables vars1 0 [] s1 of
                      (Inl e, s2) \<Rightarrow> (Inl e, s2)
                    | (Inr None, s2) \<Rightarrow> (Inr results_paired, s2)
                    | (Inr (Some (total_len, structure1)), s2) \<Rightarrow>
                        scan_reversal py structure1 vars2
                          (get_list (word_by_length s2) total_len) {} results_paired s2)
              else if \<not> handled then (Inr [], s1)
              else (Inr results_paired, s1)))"

definition solve_equation ::
  "python_runtime \<Rightarrow> (string \<times> var_info) list \<Rightarrow> string list \<Rightarrow> pattern_matcher \<Rightarrow>
   match_result list raising"
where
  "solve_equation py variables patterns s0 =
     (case time_time s0 of
        (now, s1) \<Rightarrow>
          (let s = s1\<lparr>start_time := now\<rparr>
           in if patterns = [] then (Inr [], s)
              else if variables = [] then (Inr [], s)
              else if length patterns = 1 then solve_single py variables (patterns ! 0) s
              else if length patterns = 2
              then solve_pair py variables (patterns ! 0) (patterns ! 1) s
              else (Inr [], s)))"

subsection \<open>The query dispatcher\<close>

text \<open>The test that sends a clause to \<^verbatim>\<open>variable_defs_raw\<close>; a clause is never empty.\<close>

definition is_definition_clause :: "string \<Rightarrow> bool" where
  "is_definition_clause part \<longleftrightarrow>
     CHR ''='' \<in> set part \<and> char_isalpha (hd part) \<and> char_isupper (hd part) \<and> hd part \<le> CHR ''R''"

text \<open>The loop \<^verbatim>\<open>for v_def_str in variable_defs_raw\<close>.\<close>

fun parse_definitions ::
  "string list \<Rightarrow> (string \<times> var_info) list \<Rightarrow> pattern_matcher \<Rightarrow> (string \<times> var_info) list raising"
where
  "parse_definitions [] variables s = (Inr variables, s)"
| "parse_definitions (v_def_str # vs) variables s =
     (case time_check s of
        (Inl e, s') \<Rightarrow> (Inl e, s')
      | (Inr _, s') \<Rightarrow>
          (case parse_variable_definition v_def_str of
             Some parsed_var \<Rightarrow>
               parse_definitions vs (AList.update (vi_name parsed_var) parsed_var variables) s'
           | None \<Rightarrow> parse_definitions vs variables s'))"

text \<open>The loop of the intersection mode; \<^verbatim>\<open>common_matches\<close> is \<open>None\<close> before its first round.\<close>

fun intersect_loop ::
  "python_runtime \<Rightarrow> nat \<Rightarrow> string list \<Rightarrow> string set option \<Rightarrow> pattern_matcher \<Rightarrow>
   string set option raising"
where
  "intersect_loop py i [] common_matches s = (Inr common_matches, s)"
| "intersect_loop py i (pattern # ps) common_matches s =
     (case time_check s of
        (Inl e, s1) \<Rightarrow> (Inl e, s1)
      | (Inr _, s1) \<Rightarrow>
          (case (if startswith pattern CHR ''/''
                 then (case process_anagram_pattern pattern s1 of
                         (Inl e, s2) \<Rightarrow> (Inl e, s2)
                       | (Inr None, s2) \<Rightarrow> (Inr {}, s2)
                       | (Inr (Some matches_list), s2) \<Rightarrow> (Inr (set matches_list), s2))
                 else (case find_matches_simple_pattern py pattern s1 of
                         (Inl e, s2) \<Rightarrow> (Inl e, s2)
                       | (Inr matches_list, s2) \<Rightarrow> (Inr (set matches_list), s2)))
           of
             (Inl e, s2) \<Rightarrow> (Inl e, s2)
           | (Inr current_matches, s2) \<Rightarrow>
               (case (if i = 0 then Inr current_matches
                      else (case common_matches of
                              None \<Rightarrow> Inl TypeError
                            | Some c \<Rightarrow> Inr (c \<inter> current_matches)))
                of
                  Inl e \<Rightarrow> (Inl e, s2)
                | Inr common \<Rightarrow>
                    if common = {} then (Inr (Some common), s2)
                    else intersect_loop py (Suc i) ps (Some common) s2)))"

text \<open>The body of the \<^verbatim>\<open>try\<close> statement: \<^verbatim>\<open>results\<close> and \<^verbatim>\<open>result_type\<close> at its end.\<close>

definition dispatch ::
  "python_runtime \<Rightarrow> (string \<times> var_info) list \<Rightarrow> string list \<Rightarrow> pattern_matcher \<Rightarrow>
   (match_result list \<times> string) raising"
where
  "dispatch py variables search_patterns_raw s =
     (if variables \<noteq> [] \<and> search_patterns_raw \<noteq> []
      then (case solve_equation py variables search_patterns_raw s of
              (Inl e, s') \<Rightarrow> (Inl e, s')
            | (Inr results, s') \<Rightarrow> (Inr (results, ''equation''), s'))
      else if length search_patterns_raw = 1
      then (let pattern = search_patterns_raw ! 0
            in if startswith pattern CHR ''/''
               then (case process_anagram_pattern pattern s of
                       (Inl e, s') \<Rightarrow> (Inl e, s')
                     | (Inr None, s') \<Rightarrow> (Inl TypeError, s')
                     | (Inr (Some matches), s') \<Rightarrow>
                         (Inr (map (\<lambda>m. (m, None, [])) matches, ''anagram''), s'))
               else (case find_matches_simple_pattern py pattern s of
                       (Inl e, s') \<Rightarrow> (Inl e, s')
                     | (Inr matches, s') \<Rightarrow>
                         (Inr (map (\<lambda>m. (m, None, [])) matches, ''simple''), s')))
      else if length search_patterns_raw > 1
      then (case intersect_loop py 0 search_patterns_raw None s of
              (Inl e, s') \<Rightarrow> (Inl e, s')
            | (Inr None, s') \<Rightarrow> (Inr ([], ''intersection''), s')
            | (Inr (Some common_matches), s') \<Rightarrow>
                (Inr (map (\<lambda>m. (m, None, [])) (sorted_list_of_set common_matches),
                      ''intersection''), s'))
      else (Inr ([], ''definition_only''), s))"

text \<open>
  \<^verbatim>\<open>execute_query\<close>: \<open>Inr\<close> the pair it returns (\<open>None\<close> for Python's \<^verbatim>\<open>None\<close> as the
  results), \<open>Inl\<close> an exception that leaves the method.
\<close>

definition execute_query ::
  "python_runtime \<Rightarrow> string \<Rightarrow> pattern_matcher \<Rightarrow> (match_result list option \<times> string) raising"
where
  "execute_query py query s0 =
     (case time_time s0 of
        (now, s1) \<Rightarrow>
          (let s2 = s1\<lparr>start_time := now, regex_cache := []\<rparr>;
               raw_parts = split CHR '';'' (strip query);
               parts = map strip (filter (\<lambda>p. strip p \<noteq> []) raw_parts);
               variable_defs_raw = filter is_definition_clause parts;
               search_patterns_raw = filter (\<lambda>part. \<not> is_definition_clause part) parts
           in (case parse_definitions variable_defs_raw [] s2 of
                 (Inl e, s3) \<Rightarrow> (Inl e, s3)
               | (Inr variables, s3) \<Rightarrow>
                   (case dispatch py variables search_patterns_raw s3 of
                      (Inl TimeoutError, s4) \<Rightarrow> (Inr (None, ''timeout''), s4)
                    | (Inl _, s4) \<Rightarrow> (Inr (Some [], ''error''), s4)
                    | (Inr (results, result_type), s4) \<Rightarrow> (Inr (Some results, result_type), s4)))))"

subsection \<open>Rendering and the search button\<close>

text \<open>One line of the listing, for the equation mode and for the other modes.\<close>

definition render_equation :: "match_result \<Rightarrow> string" where
  "render_equation res_tuple =
     (case res_tuple of
        (word1, word2, decomp) \<Rightarrow>
          (let decomp_parts =
                 map (\<lambda>key. case map_of decomp key of None \<Rightarrow> [] | Some v \<Rightarrow> v)
                     (sort (map fst decomp));
               decomp_str = join '' - '' decomp_parts
           in (case word2 of
                 None \<Rightarrow> word1 @ ''    ('' @ decomp_str @ '')''
               | Some w2 \<Rightarrow> word1 @ '' / '' @ w2 @ ''    ('' @ decomp_str @ '')'')))"

definition render_word :: "match_result \<Rightarrow> string" where
  "render_word res_tuple = fst res_tuple"

text \<open>The two display loops of \<^verbatim>\<open>format_results\<close>, which differ in the line they append.\<close>

fun display_loop ::
  "(match_result \<Rightarrow> string) \<Rightarrow> int \<Rightarrow> int \<Rightarrow> match_result list \<Rightarrow> string list \<Rightarrow> string list"
where
  "display_loop render max_disp displayed_count [] output = output"
| "display_loop render max_disp displayed_count (res_tuple # rest) output =
     (if displayed_count \<ge> max_disp then output
      else display_loop render max_disp (displayed_count + 1) rest (output @ [render res_tuple]))"

definition format_results :: "match_result list option \<Rightarrow> string \<Rightarrow> int \<Rightarrow> string" where
  "format_results results result_type max_disp =
     (case results of
        None \<Rightarrow> ''Query execution timed out.''
      | Some rs \<Rightarrow>
          if rs = [] \<and> result_type \<noteq> ''definition_only'' then ''No matches found.''
          else if rs = [] \<and> result_type = ''definition_only'' then []
          else
            (let num_results = int (length rs);
                 output = [''Found '' @ str_of_int num_results @ '' matches:'', ''---''];
                 output1 =
                   (if result_type = ''equation''
                    then display_loop render_equation max_disp 0 rs output
                    else display_loop render_word max_disp 0 rs output);
                 output2 =
                   (if num_results > max_disp
                    then output1 @
                         [[CHR 0x0A] @ ''... (displaying '' @ str_of_int max_disp @ '' of '' @
                          str_of_int num_results @ '' results)'']
                    else output1)
             in join [CHR 0x0A] output2))"

text \<open>
  The handler of the search button. It answers with what is shown when the query is
  empty or no word list is loaded, and otherwise with the pair \<^verbatim>\<open>execute_query\<close>
  returned and the text \<^verbatim>\<open>format_results\<close> renders from it (\<open>None\<close> where the
  notice of a time-out is shown instead); \<open>Inl\<close> when an exception leaves
  \<^verbatim>\<open>execute_query\<close>. The line that reports the running time is left out.
\<close>

datatype search_outcome =
  NoQuery
| NoWordlist
| Searched "match_result list option" string "string option"

definition execute_search ::
  "python_runtime \<Rightarrow> wordlist_cache \<Rightarrow> string \<Rightarrow> int \<Rightarrow> real \<Rightarrow> (nat \<Rightarrow> real) \<Rightarrow> exc + search_outcome"
where
  "execute_search py word_cache query max_results timeout_seconds clk =
     (if query = [] then Inr NoQuery
      else if wordlist word_cache = [] then Inr NoWordlist
      else
        (let matcher = PatternMatcher word_cache timeout_seconds clk 1
         in (case execute_query py query matcher of
               (Inl e, _) \<Rightarrow> Inl e
             | (Inr (results_data, result_type), _) \<Rightarrow>
                 Inr (Searched results_data result_type
                        (case results_data of
                           None \<Rightarrow> None
                         | Some rs \<Rightarrow> Some (format_results (Some rs) result_type max_results))))))"

subsection \<open>An instance of the regular expression library\<close>

text \<open>
  For the evaluations below, a matcher for the expressions that \<^const>\<open>pattern_to_regex\<close>
  builds from dots, stars, escaped and plain characters and classes of plain characters:
  \<^verbatim>\<open>^\<close>, then items \<^verbatim>\<open>.\<close>, \<^verbatim>\<open>.*\<close>, \<^verbatim>\<open>\c\<close>, \<^verbatim>\<open>c\<close> and \<^verbatim>\<open>[c...]\<close>, then \<^verbatim>\<open>$\<close>.
  The dot does not match a line feed, and the dollar also matches before a line feed
  that ends the word. Every other expression, among them a class that holds one of
  \<^verbatim>\<open>\ ^ - [\<close>, is outside this instance and answered with \<open>None\<close>.
\<close>

datatype re_item = Any | AnyStar | Lit char | OneOf string

function re_parse :: "string \<Rightarrow> re_item list option" where
  "re_parse [] = Some []"
| "re_parse (c # cs) =
     (if c = CHR ''.'' then
        (case cs of
           [] \<Rightarrow> Some [Any]
         | d # ds \<Rightarrow>
             if d = CHR ''*'' then map_option (\<lambda>is. AnyStar # is) (re_parse ds)
             else map_option (\<lambda>is. Any # is) (re_parse cs))
      else if c = CHR 0x5C then
        (case cs of
           [] \<Rightarrow> None
         | d # ds \<Rightarrow> if re_special d then map_option (\<lambda>is. Lit d # is) (re_parse ds) else None)
      else if c = CHR ''['' then
        (let members = takeWhile (\<lambda>x. x \<noteq> CHR '']'') cs
         in if CHR '']'' \<in> set cs \<and> members \<noteq> [] \<and>
               list_all (\<lambda>x. x \<notin> {CHR 0x5C, CHR ''^'', CHR ''-'', CHR ''[''}) members
            then map_option (\<lambda>is. OneOf members # is)
                   (re_parse (tl (dropWhile (\<lambda>x. x \<noteq> CHR '']'') cs)))
            else None)
      else if re_special c then None
      else map_option (\<lambda>is. Lit c # is) (re_parse cs))"
  by pat_completeness auto
termination
proof (relation "measure length")
  fix c :: char and cs :: string
  have "length (dropWhile (\<lambda>x. x \<noteq> CHR '']'') cs) \<le> length cs"
    by (rule length_dropWhile_le)
  then show "(tl (dropWhile (\<lambda>x. x \<noteq> CHR '']'') cs), c # cs) \<in> measure length"
    by simp
qed auto

fun re_items_match :: "re_item list \<Rightarrow> string \<Rightarrow> bool" where
  "re_items_match [] w \<longleftrightarrow> w = []"
| "re_items_match (Any # is) w \<longleftrightarrow>
     (case w of [] \<Rightarrow> False | c # cs \<Rightarrow> c \<noteq> CHR 0x0A \<and> re_items_match is cs)"
| "re_items_match (Lit x # is) w \<longleftrightarrow>
     (case w of [] \<Rightarrow> False | c # cs \<Rightarrow> c = x \<and> re_items_match is cs)"
| "re_items_match (OneOf xs # is) w \<longleftrightarrow>
     (case w of [] \<Rightarrow> False | c # cs \<Rightarrow> c \<in> set xs \<and> re_items_match is cs)"
| "re_items_match (AnyStar # is) w \<longleftrightarrow>
     re_items_match is w \<or>
     (case w of [] \<Rightarrow> False | c # cs \<Rightarrow> c \<noteq> CHR 0x0A \<and> re_items_match (AnyStar # is) cs)"

definition re_match :: "string \<Rightarrow> (string \<Rightarrow> bool) option" where
  "re_match regex =
     (case regex of
        [] \<Rightarrow> None
      | c # body \<Rightarrow>
          if c = CHR ''^'' \<and> body \<noteq> [] \<and> last body = CHR ''$''
          then map_option
                 (\<lambda>is w. re_items_match is w \<or>
                          (w \<noteq> [] \<and> last w = CHR 0x0A \<and> re_items_match is (butlast w)))
                 (re_parse (butlast body))
          else None)"

text \<open>The runtime of the evaluations: that matcher, and the letters in alphabetical order.\<close>

definition re_model :: python_runtime where
  "re_model =
     \<lparr> re_compile = re_match,
       join_consonants = ''bcdfghjklmnpqrstvwxyz'',
       join_vowels = ''aeiou'' \<rparr>"

subsection \<open>Well-formed word lists, clocks that stay within the deadline\<close>

text \<open>
  What \<^const>\<open>load_wordlist\<close> establishes and every query relies on: the keys of
  \<^verbatim>\<open>word_by_length\<close> are distinct, the bucket of a length holds words of that length
  that are in \<^verbatim>\<open>words_set\<close>, every word of \<^verbatim>\<open>words_set\<close> is in the bucket of its
  length, and \<^verbatim>\<open>wordlist\<close> and \<^verbatim>\<open>words_set\<close> hold the same words.
\<close>

definition index_ok :: "'a wordlist_cache_scheme \<Rightarrow> bool" where
  "index_ok wc \<longleftrightarrow>
     distinct (map fst (word_by_length wc)) \<and>
     (\<forall>(k, b) \<in> set (word_by_length wc). \<forall>w \<in> set b. int (length w) = k \<and> w \<in> words_set wc) \<and>
     (\<forall>w \<in> words_set wc. w \<in> set (get_list (word_by_length wc) (int (length w)))) \<and>
     set (wordlist wc) = words_set wc"

text \<open>Two states of the matcher hold the same word list.\<close>

definition same_index :: "pattern_matcher \<Rightarrow> pattern_matcher \<Rightarrow> bool" where
  "same_index s s' \<longleftrightarrow>
     wordlist s' = wordlist s \<and> word_by_length s' = word_by_length s \<and> words_set s' = words_set s"

text \<open>No reading of the clock from now on is later than the deadline the matcher holds.\<close>

definition within_deadline :: "pattern_matcher \<Rightarrow> bool" where
  "within_deadline s \<longleftrightarrow> (\<forall>n \<ge> ticks s. clock s n - start_time s \<le> timeout s)"

text \<open>A result names words of the word list only.\<close>

definition in_index :: "pattern_matcher \<Rightarrow> match_result \<Rightarrow> bool" where
  "in_index s r \<longleftrightarrow>
     (case r of
        (primary, secondary, bindings) \<Rightarrow>
          primary \<in> words_set s \<and> (case secondary of None \<Rightarrow> True | Some w \<Rightarrow> w \<in> words_set s))"

text \<open>The pair of the query engine inside what the search button answers.\<close>

definition engine_output :: "exc + search_outcome \<Rightarrow> (exc + match_result list option \<times> string) option" where
  "engine_output r =
     (case r of
        Inl e \<Rightarrow> Some (Inl e)
      | Inr (Searched results_data result_type text) \<Rightarrow> Some (Inr (results_data, result_type))
      | Inr _ \<Rightarrow> None)"

subsection \<open>Example inputs\<close>

definition reversal_words :: wordlist_cache where
  "reversal_words = load_wordlist [''stop'', ''pots'', ''evil'', ''live'', ''noon'']"

definition anagram_words :: wordlist_cache where
  "anagram_words = load_wordlist [''cats'', ''cat'', ''tack'']"

text \<open>A clock that stands still, and one that reads 0 before its \<open>k\<close>-th reading and \<open>t\<close> from then on.\<close>

definition steady_clock :: "nat \<Rightarrow> real" where
  "steady_clock n = 0"

definition stalled_clock :: "nat \<Rightarrow> real \<Rightarrow> nat \<Rightarrow> real" where
  "stalled_clock k t n = (if n < k then 0 else t)"

section \<open>Properties\<close>

subsection \<open>The shortcuts of \<^verbatim>\<open>matches_pattern\<close>\<close>

text \<open>
  Claim C8. In \<^verbatim>\<open>matches_pattern\<close> a length constraint \<open>(lo, hi)\<close> is applied before any
  shortcut: the pattern \<^verbatim>\<open>*\<close> matches a word exactly when its length lies between \<open>lo\<close>
  and \<open>hi\<close>, and every word when there is no constraint; the empty pattern matches only
  the empty word (and that one only if the constraint admits length 0); whatever the
  pattern, a word that matches under a constraint has a length the constraint admits.
\<close>

theorem matches_pattern_length_first:
  "fst (matches_pattern py word ''*'' (Some (lo, hi)) s)
     = (lo \<le> int (length word) \<and> int (length word) \<le> hi)
   \<and> fst (matches_pattern py word ''*'' None s) = True
   \<and> fst (matches_pattern py word [] None s) = (word = [])
   \<and> fst (matches_pattern py word [] (Some (lo, hi)) s) = (word = [] \<and> lo \<le> 0 \<and> 0 \<le> hi)
   \<and> (fst (matches_pattern py word pattern (Some (lo, hi)) s)
        \<longrightarrow> lo \<le> int (length word) \<and> int (length word) \<le> hi)"
  by (auto simp: matches_pattern_def split: prod.splits option.splits)

theorem matches_pattern_length_first_witness:
  "fst (matches_pattern re_model ''stop'' ''*'' (Some (4, 4)) (PatternMatcher reversal_words 5 steady_clock 0))
   \<and> \<not> fst (matches_pattern re_model ''stop'' ''*'' (Some (5, 9)) (PatternMatcher reversal_words 5 steady_clock 0))
   \<and> fst (matches_pattern re_model ''stop'' ''s*p'' (Some (4, 4)) (PatternMatcher reversal_words 5 steady_clock 0))
   \<and> (4::int) \<le> int (length ''stop'') \<and> int (length ''stop'') \<le> 4"
proof -
  have m: "fst (matches_pattern re_model ''stop'' ''s*p'' (Some (4, 4))
             (PatternMatcher reversal_words 5 steady_clock 0))"
    by code_simp
  show ?thesis
    using m matches_pattern_length_first [of re_model "''stop''" 4 4
        "PatternMatcher reversal_words 5 steady_clock 0" "''s*p''"]
      matches_pattern_length_first [of re_model "''stop''" 5 9
        "PatternMatcher reversal_words 5 steady_clock 0" "''s*p''"]
    by simp
qed

subsection \<open>The query \<^verbatim>\<open>X;~X\<close>\<close>

text \<open>
  Claim C1. The query \<^verbatim>\<open>A=(4:*);A;~A\<close>, on the word list \<^verbatim>\<open>stop pots evil live noon\<close>,
  is answered by both relations of the two-clause branch: after the pairs of the
  self-reverse relation the sequence-reversal relation adds every candidate with its
  reverse, so each pair appears three times and \<^verbatim>\<open>noon\<close> is paired with itself. The
  subpattern \<^verbatim>\<open>....\<close> gives the same answer.
\<close>

theorem self_reverse_query_emits_pairs_again:
  "fst (execute_query py ''A=(4:*);A;~A'' (PatternMatcher reversal_words 5 steady_clock 0))
   = Inr (Some
       [(''evil'', Some ''live'', [(''A'', ''evil'')]),
        (''pots'', Some ''stop'', [(''A'', ''pots'')]),
        (''evil'', Some ''live'', [(''A'', ''evil'')]),
        (''live'', Some ''evil'', [(''A'', ''live'')]),
        (''noon'', Some ''noon'', [(''A'', ''noon'')]),
        (''pots'', Some ''stop'', [(''A'', ''pots'')]),
        (''stop'', Some ''pots'', [(''A'', ''stop'')])],
      ''equation'')
   \<and> fst (execute_query re_model ''A=(4:....);A;~A'' (PatternMatcher reversal_words 5 steady_clock 0))
   = fst (execute_query re_model ''A=(4:*);A;~A'' (PatternMatcher reversal_words 5 steady_clock 0))"
  by code_simp

subsection \<open>Deadlines\<close>

text \<open>
  Claim C2. The deadline check of the loop over the variable definitions stands before
  the \<^verbatim>\<open>try\<close> statement: when the clock passes the deadline between the start of
  \<^verbatim>\<open>execute_query\<close> and that check, \<^verbatim>\<open>TimeoutError\<close> leaves \<^verbatim>\<open>execute_query\<close>.
\<close>

theorem timeout_escapes_while_parsing_definitions:
  "fst (execute_query py ''A=(4:*);A'' (PatternMatcher reversal_words 5 (stalled_clock 2 10) 0))
   = Inl TimeoutError"
  by code_simp

text \<open>
  Claim C3. \<^verbatim>\<open>solve_equation\<close> reads the clock again and replaces \<^verbatim>\<open>start_time\<close>: with a
  time limit of 5 and a clock that reads 0 up to the start of the solver and 7 from then
  on, the equation query is answered in full, its start time 7 at the end, although every
  checkpoint of the solver reads 7 and the query began at 0. A simple pattern under such
  a clock times out.
\<close>

theorem equation_deadline_recaptured:
  "fst (execute_query py ''A=(2:*);B=(2:*);AB'' (PatternMatcher reversal_words 5 (stalled_clock 4 7) 0))
   = Inr (Some
       [(''evil'', None, [(''A'', ''ev''), (''B'', ''il'')]),
        (''live'', None, [(''A'', ''li''), (''B'', ''ve'')]),
        (''noon'', None, [(''A'', ''no''), (''B'', ''on'')]),
        (''pots'', None, [(''A'', ''po''), (''B'', ''ts'')]),
        (''stop'', None, [(''A'', ''st''), (''B'', ''op'')])],
      ''equation'')
   \<and> start_time (snd (execute_query py ''A=(2:*);B=(2:*);AB''
        (PatternMatcher reversal_words 5 (stalled_clock 4 7) 0))) = 7
   \<and> fst (execute_query re_model ''4:*'' (PatternMatcher reversal_words 5 (stalled_clock 3 7) 0))
   = Inr (None, ''timeout'')"
  by code_simp

text \<open>
  Claim C4. When the deadline is passed at the checkpoint of the second variable
  definition, \<^verbatim>\<open>execute_query\<close> does not return the pair \<^verbatim>\<open>(None, "timeout")\<close>: the
  exception leaves it. Passed at the first checkpoint of the solver, the deadline gives
  that pair.
\<close>

theorem checkpoint_timeout_is_not_tagged:
  "fst (execute_query py ''A=(2:*);B=(2:*);AB'' (PatternMatcher reversal_words 5 (stalled_clock 3 7) 0))
   = Inl TimeoutError
   \<and> fst (execute_query py ''A=(2:*);B=(2:*);AB'' (PatternMatcher reversal_words 5 (stalled_clock 5 7) 0))
   = Inr (None, ''timeout'')"
  by code_simp

subsection \<open>Escapes and the cache of compiled patterns\<close>

text \<open>
  An expression that begins with an escaped opening bracket asks for that bracket: the
  matcher of the instance rejects every one-character word that is another character.
\<close>

lemma escaped_bracket_rejects:
  assumes "c \<noteq> CHR ''[''"
  shows "(case re_match (CHR ''^'' # CHR 0x5C # CHR ''['' # t @ ''$'') of
            None \<Rightarrow> False
          | Some m \<Rightarrow> m [c]) = False"
proof -
  have b: "butlast (CHR 0x5C # CHR ''['' # t @ ''$'') = CHR 0x5C # CHR ''['' # t"
    by (simp add: butlast_append)
  have l: "last (CHR 0x5C # CHR ''['' # t @ ''$'') = CHR ''$''"
    by simp
  have p: "re_parse (CHR 0x5C # CHR ''['' # t) = map_option (\<lambda>is. Lit CHR ''['' # is) (re_parse t)"
    by (simp add: re_special_def)
  show ?thesis
  proof (cases "re_parse t")
    case None
    then show ?thesis by (simp add: re_match_def b l p)
  next
    case (Some items)
    with assms show ?thesis by (simp add: re_match_def b l p)
  qed
qed

text \<open>What \<^verbatim>\<open>pattern_to_regex\<close> makes of \<^verbatim>\<open>\#\<close> and of \<^verbatim>\<open>\@\<close>, whatever the order of the letters.\<close>

lemma escaped_hash_regex:
  "regex_cache s = [] \<Longrightarrow>
   fst (pattern_to_regex py [CHR 0x5C, CHR ''#''] s) =
     CHR ''^'' # CHR 0x5C # CHR ''['' #
       translate (replace CHR ''@'' (''['' @ join_vowels py @ '']'') (join_consonants py @ '']'')) @ ''$''"
  by (simp add: pattern_to_regex_def replace_def Let_def re_escape_def re_special_def)

lemma escaped_at_regex:
  "regex_cache s = [] \<Longrightarrow>
   fst (pattern_to_regex py [CHR 0x5C, CHR ''@''] s) =
     CHR ''^'' # CHR 0x5C # CHR ''['' # translate (join_vowels py @ '']'') @ ''$''"
  by (simp add: pattern_to_regex_def replace_def Let_def re_escape_def re_special_def)

text \<open>
  Claim C5. The pattern \<^verbatim>\<open>\#\<close> is compiled after \<^verbatim>\<open>#\<close> was replaced by the class of
  the consonants: the backslash then escapes the opening bracket of that class. Whatever
  the order in which the runtime joins the letters, the expression begins with
  \<^verbatim>\<open>^\[\<close>, and with the matcher of the instance the pattern does not match the word
  \<^verbatim>\<open>#\<close>. The same holds for \<^verbatim>\<open>\@\<close> and the word \<^verbatim>\<open>@\<close>; \<^verbatim>\<open>\.\<close> asks for a dot.
\<close>

theorem escaped_hash_is_not_literal:
  "take 3 (fst (pattern_to_regex py [CHR 0x5C, CHR ''#''] (PatternMatcher reversal_words 5 steady_clock 0)))
     = [CHR ''^'', CHR 0x5C, CHR ''['']
   \<and> \<not> fst (matches_pattern (py\<lparr>re_compile := re_match\<rparr>) ''#'' [CHR 0x5C, CHR ''#''] None
            (PatternMatcher reversal_words 5 steady_clock 0))
   \<and> \<not> fst (matches_pattern (py\<lparr>re_compile := re_match\<rparr>) ''@'' [CHR 0x5C, CHR ''@''] None
            (PatternMatcher reversal_words 5 steady_clock 0))
   \<and> fst (matches_pattern (py\<lparr>re_compile := re_match\<rparr>) ''.'' [CHR 0x5C, CHR ''.''] None
          (PatternMatcher reversal_words 5 steady_clock 0))
   \<and> \<not> fst (matches_pattern (py\<lparr>re_compile := re_match\<rparr>) ''a'' [CHR 0x5C, CHR ''.''] None
            (PatternMatcher reversal_words 5 steady_clock 0))"
proof -
  let ?s = "PatternMatcher reversal_words 5 steady_clock 0"
  let ?py = "py\<lparr>re_compile := re_match\<rparr>"
  have e: "regex_cache ?s = []" by (simp add: PatternMatcher_def)
  have 1: "take 3 (fst (pattern_to_regex py [CHR 0x5C, CHR ''#''] ?s)) = [CHR ''^'', CHR 0x5C, CHR ''['']"
    by (simp add: escaped_hash_regex [OF e])
  have 2: "\<not> fst (matches_pattern ?py ''#'' [CHR 0x5C, CHR ''#''] None ?s)"
  proof -
    define t where
      "t = translate (replace CHR ''@'' (''['' @ join_vowels ?py @ '']'') (join_consonants ?py @ '']''))"
    obtain rx s' where pr: "pattern_to_regex ?py [CHR 0x5C, CHR ''#''] ?s = (rx, s')"
      by (cases "pattern_to_regex ?py [CHR 0x5C, CHR ''#''] ?s")
    with escaped_hash_regex [OF e, of ?py]
    have rx: "rx = CHR ''^'' # CHR 0x5C # CHR ''['' # t @ ''$''"
      by (simp add: t_def)
    have "fst (matches_pattern ?py ''#'' [CHR 0x5C, CHR ''#''] None ?s)
            = (case re_match rx of None \<Rightarrow> False | Some m \<Rightarrow> m ''#'')"
      using pr by (simp add: matches_pattern_def split: option.splits)
    also have "\<dots> = False"
      unfolding rx by (rule escaped_bracket_rejects) simp
    finally show ?thesis by simp
  qed
  have 3: "\<not> fst (matches_pattern ?py ''@'' [CHR 0x5C, CHR ''@''] None ?s)"
  proof -
    define t where "t = translate (join_vowels ?py @ '']'')"
    obtain rx s' where pr: "pattern_to_regex ?py [CHR 0x5C, CHR ''@''] ?s = (rx, s')"
      by (cases "pattern_to_regex ?py [CHR 0x5C, CHR ''@''] ?s")
    with escaped_at_regex [OF e, of ?py]
    have rx: "rx = CHR ''^'' # CHR 0x5C # CHR ''['' # t @ ''$''"
      by (simp add: t_def)
    have "fst (matches_pattern ?py ''@'' [CHR 0x5C, CHR ''@''] None ?s)
            = (case re_match rx of None \<Rightarrow> False | Some m \<Rightarrow> m ''@'')"
      using pr by (simp add: matches_pattern_def split: option.splits)
    also have "\<dots> = False"
      unfolding rx by (rule escaped_bracket_rejects) simp
    finally show ?thesis by simp
  qed
  have r: "fst (pattern_to_regex ?py [CHR 0x5C, CHR ''.''] ?s) = [CHR ''^'', CHR 0x5C, CHR ''.'', CHR ''$'']"
    using e by (simp add: pattern_to_regex_def replace_def Let_def re_escape_def re_special_def)
  have m: "re_match [CHR ''^'', CHR 0x5C, CHR ''.'', CHR ''$'']
             = Some (\<lambda>w. re_items_match [Lit CHR ''.''] w \<or>
                         (w \<noteq> [] \<and> last w = CHR 0x0A \<and> re_items_match [Lit CHR ''.''] (butlast w)))"
    by (simp add: re_match_def re_special_def)
  obtain rx s' where pr: "pattern_to_regex ?py [CHR 0x5C, CHR ''.''] ?s = (rx, s')"
    by (cases "pattern_to_regex ?py [CHR 0x5C, CHR ''.''] ?s")
  with r have rx: "rx = [CHR ''^'', CHR 0x5C, CHR ''.'', CHR ''$'']" by simp
  have d: "fst (matches_pattern ?py w [CHR 0x5C, CHR ''.''] None ?s)
             = (re_items_match [Lit CHR ''.''] w \<or>
                (w \<noteq> [] \<and> last w = CHR 0x0A \<and> re_items_match [Lit CHR ''.''] (butlast w)))" for w
    using pr m unfolding rx by (simp add: matches_pattern_def)
  have 4: "fst (matches_pattern ?py ''.'' [CHR 0x5C, CHR ''.''] None ?s)"
    by (simp add: d)
  have 5: "\<not> fst (matches_pattern ?py ''a'' [CHR 0x5C, CHR ''.''] None ?s)"
    by (simp add: d)
  from 1 2 3 4 5 show ?thesis by blast
qed

text \<open>
  Claim C6. \<^verbatim>\<open>pattern_to_regex\<close> stores the expression under the pattern as rewritten by
  the two replacements: after compiling \<^verbatim>\<open>#\<close>, whatever the order in which the runtime
  joins the letters, the cache has one entry, under the rewritten pattern, and none
  under \<^verbatim>\<open>#\<close>. A pattern without \<^verbatim>\<open>#\<close> and \<^verbatim>\<open>@\<close> is stored under itself.
\<close>

theorem cache_key_is_rewritten_pattern:
  "map fst (regex_cache (snd (pattern_to_regex py ''#'' (PatternMatcher reversal_words 5 steady_clock 0))))
     = [replace CHR ''@'' (''['' @ join_vowels py @ '']'')
          (replace CHR ''#'' (''['' @ join_consonants py @ '']'') ''#'')]
   \<and> map_of (regex_cache (snd (pattern_to_regex py ''#'' (PatternMatcher reversal_words 5 steady_clock 0))))
        ''#'' = None
   \<and> regex_cache (snd (pattern_to_regex py ''c.t'' (PatternMatcher reversal_words 5 steady_clock 0)))
   = [(''c.t'', ''^c.t$'')]"
proof -
  let ?s = "PatternMatcher reversal_words 5 steady_clock 0"
  have e: "regex_cache ?s = []" by (simp add: PatternMatcher_def)
  define key where
    "key = replace CHR ''@'' (''['' @ join_vowels py @ '']'')
             (replace CHR ''#'' (''['' @ join_consonants py @ '']'') ''#'')"
  have cache: "regex_cache (snd (pattern_to_regex py ''#'' ?s)) = [(key, ''^'' @ translate key @ ''$'')]"
    using e by (simp add: pattern_to_regex_def Let_def key_def)
  have "key = CHR ''['' # replace CHR ''@'' (''['' @ join_vowels py @ '']'') (join_consonants py @ '']'')"
    by (simp add: key_def replace_def)
  then have ne: "key \<noteq> ''#''" by simp
  have 1: "map fst (regex_cache (snd (pattern_to_regex py ''#'' ?s)))
     = [replace CHR ''@'' (''['' @ join_vowels py @ '']'')
          (replace CHR ''#'' (''['' @ join_consonants py @ '']'') ''#'')]"
    unfolding cache by (simp add: key_def)
  have 2: "map_of (regex_cache (snd (pattern_to_regex py ''#'' ?s))) ''#'' = None"
    unfolding cache using ne by simp
  have 3: "regex_cache (snd (pattern_to_regex py ''c.t'' ?s)) = [(''c.t'', ''^c.t$'')]"
    using e by (simp add: pattern_to_regex_def replace_def Let_def re_escape_def re_special_def)
  from 1 2 3 show ?thesis by blast
qed

subsection \<open>Anagram patterns\<close>

text \<open>The deadline check, when it fails and when it cannot.\<close>

lemma time_check_cases:
  "time_check s = (r, s') \<Longrightarrow> s' = s\<lparr>ticks := Suc (ticks s)\<rparr> \<and> (r = Inl TimeoutError \<or> r = Inr ())"
  by (auto simp: time_check_def time_time_def split: if_splits)

lemma time_check_within:
  "within_deadline s \<Longrightarrow> time_check s = (Inr (), s\<lparr>ticks := Suc (ticks s)\<rparr>)"
  by (auto simp: time_check_def time_time_def within_deadline_def)

lemma within_deadline_tick:
  "within_deadline s \<Longrightarrow> within_deadline (s\<lparr>ticks := Suc (ticks s)\<rparr>)"
  by (simp add: within_deadline_def)

text \<open>The dictionaries of letter counts hold the number of occurrences of each letter.\<close>

lemma count_chars_snoc:
  "count_chars (xs @ [x]) =
     AList.update x ((case map_of (count_chars xs) x of None \<Rightarrow> 0 | Some n \<Rightarrow> n) + 1) (count_chars xs)"
  by (simp add: count_chars_def)

lemma map_of_count_chars:
  "map_of (count_chars xs) c = (if c \<in> set xs then Some (int (count_list xs c)) else None)"
proof (induction xs arbitrary: c rule: rev_induct)
  case Nil
  show ?case by (simp add: count_chars_def)
next
  case (snoc x xs)
  show ?case
    by (auto simp add: count_chars_snoc update_conv' snoc.IH)
qed

lemma distinct_count_chars: "distinct (map fst (count_chars xs))"
proof (induction xs rule: rev_induct)
  case Nil
  show ?case by (simp add: count_chars_def)
next
  case (snoc x xs)
  then show ?case by (simp add: count_chars_snoc distinct_update)
qed

lemma get_count_count_chars: "get_count (count_chars w) c = int (count_list w c)"
  by (simp add: get_count_def map_of_count_chars)

lemma count_list_sort: "count_list (sort xs) c = count_list xs (c :: 'a :: linorder)"
  by (simp add: count_list_eq_length_filter filter_sort)

lemma base_counts_covered:
  "list_all (\<lambda>(char, count). \<not> get_count (count_chars w) char < count) (count_chars bs)
     \<longleftrightarrow> (\<forall>c. count_list bs c \<le> count_list w c)"
proof
  assume a: "list_all (\<lambda>(char, count). \<not> get_count (count_chars w) char < count) (count_chars bs)"
  show "\<forall>c. count_list bs c \<le> count_list w c"
  proof
    fix c
    show "count_list bs c \<le> count_list w c"
    proof (cases "c \<in> set bs")
      case True
      then have "map_of (count_chars bs) c = Some (int (count_list bs c))"
        by (simp add: map_of_count_chars)
      then have "(c, int (count_list bs c)) \<in> set (count_chars bs)"
        by (rule map_of_SomeD)
      with a have "\<not> get_count (count_chars w) c < int (count_list bs c)"
        by (auto simp: list_all_iff)
      then show ?thesis by (simp add: get_count_count_chars)
    next
      case False
      then show ?thesis by simp
    qed
  qed
next
  assume a: "\<forall>c. count_list bs c \<le> count_list w c"
  show "list_all (\<lambda>(char, count). \<not> get_count (count_chars w) char < count) (count_chars bs)"
    unfolding list_all_iff
  proof
    fix p
    assume p: "p \<in> set (count_chars bs)"
    obtain c n where cn: "p = (c, n)" by (cases p)
    with p have "map_of (count_chars bs) c = Some n"
      using distinct_count_chars [of bs] by simp
    then have "n = int (count_list bs c)"
      by (simp add: map_of_count_chars split: if_splits)
    with a cn show "case p of (char, count) \<Rightarrow> \<not> get_count (count_chars w) char < count"
      by (simp add: get_count_count_chars not_less)
  qed
qed

text \<open>The candidate loop keeps the accepted candidates, in their order.\<close>

lemma anagram_loop_result:
  "anagram_loop accepts i ws ms s = (r, s') \<Longrightarrow>
     r = Inl TimeoutError \<or> r = Inr (ms @ filter accepts ws)"
proof (induction ws arbitrary: i ms s)
  case Nil
  then show ?case by simp
next
  case (Cons w ws)
  show ?case
  proof (cases "i mod 1000 = 0")
    case True
    obtain c t where ct: "time_check s = (c, t)" by (cases "time_check s")
    from time_check_cases [OF ct] Cons.prems True ct
      Cons.IH [of "Suc i" "if accepts w then ms @ [w] else ms" t]
    show ?thesis
      by (auto split: if_splits)
  next
    case False
    with Cons.prems Cons.IH [of "Suc i" "if accepts w then ms @ [w] else ms" s]
    show ?thesis by (auto split: if_splits)
  qed
qed

lemma anagram_loop_within:
  "within_deadline s \<Longrightarrow>
     \<exists>s'. anagram_loop accepts i ws ms s = (Inr (ms @ filter accepts ws), s')"
proof (induction ws arbitrary: i ms s)
  case Nil
  then show ?case by simp
next
  case (Cons w ws)
  show ?case
  proof (cases "i mod 1000 = 0")
    case True
    from Cons.prems have w': "within_deadline (s\<lparr>ticks := Suc (ticks s)\<rparr>)"
      by (rule within_deadline_tick)
    from Cons.IH [OF w', of "Suc i" "if accepts w then ms @ [w] else ms"]
    show ?thesis using True time_check_within [OF Cons.prems] by auto
  next
    case False
    from Cons.IH [OF Cons.prems, of "Suc i" "if accepts w then ms @ [w] else ms"]
    show ?thesis using False by auto
  qed
qed

text \<open>The buckets of a well-formed word list.\<close>

lemma in_get_list: "w \<in> set (get_list d k) \<longleftrightarrow> (\<exists>b. map_of d k = Some b \<and> w \<in> set b)"
  by (cases "map_of d k") (auto simp: get_list_def)

lemma index_ok_bucket:
  "index_ok wc \<Longrightarrow> w \<in> set (get_list (word_by_length wc) k) \<longleftrightarrow> w \<in> words_set wc \<and> int (length w) = k"
proof
  assume ok: "index_ok wc" and "w \<in> set (get_list (word_by_length wc) k)"
  then obtain b where "map_of (word_by_length wc) k = Some b" "w \<in> set b"
    by (auto simp: in_get_list)
  then have "(k, b) \<in> set (word_by_length wc)" by (auto dest: map_of_SomeD)
  with ok \<open>w \<in> set b\<close> show "w \<in> words_set wc \<and> int (length w) = k"
    by (auto simp: index_ok_def)
next
  assume "index_ok wc" and "w \<in> words_set wc \<and> int (length w) = k"
  then show "w \<in> set (get_list (word_by_length wc) k)"
    by (auto simp: index_ok_def)
qed

lemma index_ok_buckets_from:
  assumes "index_ok wc"
  shows "w \<in> set (concat (map snd (filter (\<lambda>(l, ws). l \<ge> m) (word_by_length wc))))
           \<longleftrightarrow> w \<in> words_set wc \<and> int (length w) \<ge> m"
proof
  assume "w \<in> set (concat (map snd (filter (\<lambda>(l, ws). l \<ge> m) (word_by_length wc))))"
  then obtain l b where "(l, b) \<in> set (word_by_length wc)" "l \<ge> m" "w \<in> set b"
    by auto
  with assms show "w \<in> words_set wc \<and> int (length w) \<ge> m"
    by (auto simp: index_ok_def)
next
  assume a: "w \<in> words_set wc \<and> int (length w) \<ge> m"
  with assms have "w \<in> set (get_list (word_by_length wc) (int (length w)))"
    by (simp add: index_ok_bucket)
  then obtain b where "map_of (word_by_length wc) (int (length w)) = Some b" "w \<in> set b"
    by (auto simp: in_get_list)
  then have "(int (length w), b) \<in> set (word_by_length wc)" "w \<in> set b"
    by (auto dest: map_of_SomeD)
  with a show "w \<in> set (concat (map snd (filter (\<lambda>(l, ws). l \<ge> m) (word_by_length wc))))"
    by force
qed

lemma process_anagram_pattern_unfold:
  "process_anagram_pattern (CHR ''/'' # content) s =
     (case time_check s of
        (Inl e, s1) \<Rightarrow> (Inl e, s1)
      | (Inr u, s1) \<Rightarrow>
          (case anagram_loop
                  (anagram_accepts (count_chars (sort (filter char_isalpha content)))
                     (sort (filter char_isalpha content))
                     (int (count_list content CHR ''.'')) (int (count_list content CHR ''*''))
                     (int (length (filter char_isalpha content)) + int (count_list content CHR ''.''))
                     (if count_list content CHR ''*'' > 0 then None
                      else Some (int (length (filter char_isalpha content)) + int (count_list content CHR ''.''))))
                  0
                  (if count_list content CHR ''*'' > 0
                   then concat (map snd (filter (\<lambda>(l, ws).
                          l \<ge> int (length (filter char_isalpha content)) + int (count_list content CHR ''.''))
                          (word_by_length s1)))
                   else get_list (word_by_length s1)
                          (int (length (filter char_isalpha content)) + int (count_list content CHR ''.'')))
                  [] s1 of
             (Inl e, s2) \<Rightarrow> (Inl e, s2)
           | (Inr matches, s2) \<Rightarrow> (Inr (Some matches), s2)))"
proof -
  obtain c t where ct: "time_check s = (c, t)" by (cases "time_check s")
  show ?thesis
  proof (cases c)
    case (Inl e)
    with ct show ?thesis by (simp add: process_anagram_pattern_def)
  next
    case (Inr u)
    show ?thesis
    proof (cases "count_list content CHR ''*'' = 0")
      case True
      with ct Inr show ?thesis by (simp add: process_anagram_pattern_def Let_def)
    next
      case False
      with ct Inr show ?thesis by (simp add: process_anagram_pattern_def Let_def)
    qed
  qed
qed

lemma anagram_accepts_iff:
  "st \<ge> 0 \<Longrightarrow>
   anagram_accepts (count_chars (sort bs)) (sort bs) d st (int (length bs) + d)
      (if st > 0 then None else Some (int (length bs) + d)) w
   \<longleftrightarrow> (\<forall>c. count_list bs c \<le> count_list w c) \<and>
       (if st > 0 then int (length w) \<ge> int (length bs) + d
        else int (length w) - int (length bs) = d)"
  by (auto simp: anagram_accepts_def base_counts_covered count_list_sort)

text \<open>
  Claim C7. For an anagram clause \<^verbatim>\<open>/content\<close> on a well-formed word list, with \<open>B\<close> the
  alphabetic characters of the content, \<open>d\<close> its number of dots and \<open>s\<close> its number of
  stars: \<^verbatim>\<open>process_anagram_pattern\<close> returns a list when the clock stays within the
  deadline, it returns a list or raises \<^verbatim>\<open>TimeoutError\<close> in any case, and a word is in
  the list it returns exactly when it is a word of the word list in which every letter
  occurs at least as often as in \<open>B\<close> and whose length minus the length of \<open>B\<close> is \<open>d\<close>
  if \<open>s = 0\<close>, and at least the length of \<open>B\<close> plus \<open>d\<close> otherwise.
\<close>

theorem anagram_pattern_matches:
  assumes "index_ok s"
  shows "(within_deadline s \<longrightarrow>
            (\<exists>ms s'. process_anagram_pattern (CHR ''/'' # content) s = (Inr (Some ms), s')))
       \<and> (\<forall>r s'. process_anagram_pattern (CHR ''/'' # content) s = (r, s') \<longrightarrow>
            r = Inl TimeoutError \<or>
            (\<exists>ms. r = Inr (Some ms) \<and>
               (\<forall>w. w \<in> set ms \<longleftrightarrow>
                  w \<in> words_set s \<and>
                  (\<forall>c. count_list (filter char_isalpha content) c \<le> count_list w c) \<and>
                  (if count_list content CHR ''*'' = 0
                   then int (length w) - int (length (filter char_isalpha content))
                          = int (count_list content CHR ''.'')
                   else int (length w) \<ge> int (length (filter char_isalpha content))
                          + int (count_list content CHR ''.'')))))"
proof -
  let ?B = "filter char_isalpha content"
  let ?d = "int (count_list content CHR ''.'')"
  let ?st = "int (count_list content CHR ''*'')"
  let ?s1 = "s\<lparr>ticks := Suc (ticks s)\<rparr>"
  define acc where
    "acc = anagram_accepts (count_chars (sort ?B)) (sort ?B) ?d ?st (int (length ?B) + ?d)
             (if count_list content CHR ''*'' > 0 then None else Some (int (length ?B) + ?d))"
  define cands where
    "cands = (if count_list content CHR ''*'' > 0
              then concat (map snd (filter (\<lambda>(l, ws). l \<ge> int (length ?B) + ?d) (word_by_length ?s1)))
              else get_list (word_by_length ?s1) (int (length ?B) + ?d))"
  define good where
    "good = (\<lambda>w. w \<in> words_set s \<and>
                 (\<forall>c. count_list ?B c \<le> count_list w c) \<and>
                 (if count_list content CHR ''*'' = 0
                  then int (length w) - int (length ?B) = ?d
                  else int (length w) \<ge> int (length ?B) + ?d))"
  have unfold: "process_anagram_pattern (CHR ''/'' # content) s =
     (case time_check s of
        (Inl e, s1) \<Rightarrow> (Inl e, s1)
      | (Inr u, s1) \<Rightarrow>
          (case anagram_loop acc 0 cands [] ?s1 of
             (Inl e, s2) \<Rightarrow> (Inl e, s2)
           | (Inr matches, s2) \<Rightarrow> (Inr (Some matches), s2)))"
  proof -
    obtain c t where ct: "time_check s = (c, t)" by (cases "time_check s")
    from time_check_cases [OF ct] have t: "t = ?s1" by simp
    show ?thesis
      unfolding process_anagram_pattern_unfold acc_def cands_def ct t
      by (cases c) simp_all
  qed
  have ok1: "index_ok ?s1" using assms by (simp add: index_ok_def)
  have mem: "w \<in> set (filter acc cands) \<longleftrightarrow> good w" for w
  proof (cases "count_list content CHR ''*'' > 0")
    case True
    have c: "w \<in> set cands \<longleftrightarrow> w \<in> words_set s \<and> int (length w) \<ge> int (length ?B) + ?d"
      unfolding cands_def using True index_ok_buckets_from [OF ok1, of w "int (length ?B) + ?d"]
      by simp
    have a: "acc w \<longleftrightarrow> (\<forall>c. count_list ?B c \<le> count_list w c) \<and>
                        int (length w) \<ge> int (length ?B) + ?d"
      unfolding acc_def using True anagram_accepts_iff [of ?st ?B ?d w] by simp
    have g: "good w \<longleftrightarrow> w \<in> words_set s \<and> (\<forall>c. count_list ?B c \<le> count_list w c) \<and>
                        int (length w) \<ge> int (length ?B) + ?d"
      unfolding good_def using True by simp
    show ?thesis unfolding g set_filter mem_Collect_eq c a by blast
  next
    case False
    have c: "w \<in> set cands \<longleftrightarrow> w \<in> words_set s \<and> int (length w) = int (length ?B) + ?d"
      unfolding cands_def using False index_ok_bucket [OF ok1, of w "int (length ?B) + ?d"]
      by simp
    have a: "acc w \<longleftrightarrow> (\<forall>c. count_list ?B c \<le> count_list w c) \<and>
                        int (length w) - int (length ?B) = ?d"
      unfolding acc_def using False anagram_accepts_iff [of ?st ?B ?d w] by simp
    have g: "good w \<longleftrightarrow> w \<in> words_set s \<and> (\<forall>c. count_list ?B c \<le> count_list w c) \<and>
                        int (length w) - int (length ?B) = ?d"
      unfolding good_def using False by simp
    have e: "int (length w) = int (length ?B) + ?d \<longleftrightarrow> int (length w) - int (length ?B) = ?d"
      by arith
    show ?thesis unfolding g set_filter mem_Collect_eq c a e by blast
  qed
  have returns: "\<exists>ms s'. process_anagram_pattern (CHR ''/'' # content) s = (Inr (Some ms), s')"
    if wd: "within_deadline s"
  proof -
    have tc: "time_check s = (Inr (), ?s1)" using wd by (rule time_check_within)
    have "within_deadline ?s1" using wd by (rule within_deadline_tick)
    from anagram_loop_within [OF this, of acc 0 cands "[]"]
    obtain s2 where "anagram_loop acc 0 cands [] ?s1 = (Inr ([] @ filter acc cands), s2)"
      by blast
    then have "process_anagram_pattern (CHR ''/'' # content) s = (Inr (Some ([] @ filter acc cands)), s2)"
      by (simp add: unfold tc)
    then show ?thesis by blast
  qed
  have result: "r = Inl TimeoutError \<or> (\<exists>ms. r = Inr (Some ms) \<and> (\<forall>w. w \<in> set ms \<longleftrightarrow> good w))"
    if run: "process_anagram_pattern (CHR ''/'' # content) s = (r, s')" for r s'
  proof -
    obtain c t where ct: "time_check s = (c, t)" by (cases "time_check s")
    from time_check_cases [OF ct] have c: "c = Inl TimeoutError \<or> c = Inr ()" by simp
    obtain r2 s2 where loop: "anagram_loop acc 0 cands [] ?s1 = (r2, s2)"
      by (cases "anagram_loop acc 0 cands [] ?s1")
    from anagram_loop_result [OF loop]
    have r2: "r2 = Inl TimeoutError \<or> r2 = Inr (filter acc cands)" by simp
    from c show ?thesis
    proof
      assume "c = Inl TimeoutError"
      with run ct show ?thesis by (simp add: unfold)
    next
      assume c': "c = Inr ()"
      from r2 show ?thesis
      proof
        assume "r2 = Inl TimeoutError"
        with run ct c' loop show ?thesis by (simp add: unfold)
      next
        assume "r2 = Inr (filter acc cands)"
        with run ct c' loop have "r = Inr (Some (filter acc cands))" by (simp add: unfold)
        with mem show ?thesis by blast
      qed
    qed
  qed
  show ?thesis
    using returns result unfolding good_def by blast
qed

text \<open>
  The clause \<^verbatim>\<open>/act.\<close> on the word list \<^verbatim>\<open>cats cat tack\<close>: the four-letter words
  \<^verbatim>\<open>cats\<close> and \<^verbatim>\<open>tack\<close> are returned, \<^verbatim>\<open>cat\<close> is not.
\<close>

theorem anagram_pattern_matches_witness:
  "index_ok (PatternMatcher anagram_words 5 steady_clock 0)
   \<and> within_deadline (PatternMatcher anagram_words 5 steady_clock 0)
   \<and> fst (process_anagram_pattern ''/act.'' (PatternMatcher anagram_words 5 steady_clock 0))
       = Inr (Some [''cats'', ''tack''])
   \<and> ''cats'' \<in> words_set (PatternMatcher anagram_words 5 steady_clock 0)
   \<and> (\<forall>c. count_list (filter char_isalpha ''act.'') c \<le> count_list ''cats'' c)
   \<and> int (length ''cats'') - int (length (filter char_isalpha ''act.'')) = int (count_list ''act.'' CHR ''.'')"
proof -
  let ?s = "PatternMatcher anagram_words 5 steady_clock 0"
  have ok: "index_ok ?s"
    unfolding index_ok_def by code_simp
  have wd: "within_deadline ?s"
    by (simp add: within_deadline_def PatternMatcher_def steady_clock_def)
  have run: "fst (process_anagram_pattern ''/act.'' ?s) = Inr (Some [''cats'', ''tack''])"
    by code_simp
  obtain r s' where rs: "process_anagram_pattern ''/act.'' ?s = (r, s')"
    by (cases "process_anagram_pattern ''/act.'' ?s")
  with run have r: "r = Inr (Some [''cats'', ''tack''])" by simp
  from anagram_pattern_matches [OF ok, of "''act.''"] rs r
  have "\<forall>w. w \<in> set [''cats'', ''tack''] \<longleftrightarrow>
          w \<in> words_set ?s \<and>
          (\<forall>c. count_list (filter char_isalpha ''act.'') c \<le> count_list w c) \<and>
          (if count_list ''act.'' CHR ''*'' = 0
           then int (length w) - int (length (filter char_isalpha ''act.'')) = int (count_list ''act.'' CHR ''.'')
           else int (length w) \<ge> int (length (filter char_isalpha ''act.'')) + int (count_list ''act.'' CHR ''.''))"
    by auto
  moreover have "''cats'' \<in> set [''cats'', ''tack'']" by simp
  ultimately have "''cats'' \<in> words_set ?s \<and>
          (\<forall>c. count_list (filter char_isalpha ''act.'') c \<le> count_list ''cats'' c) \<and>
          (if count_list ''act.'' CHR ''*'' = 0
           then int (length ''cats'') - int (length (filter char_isalpha ''act.'')) = int (count_list ''act.'' CHR ''.'')
           else int (length ''cats'') \<ge> int (length (filter char_isalpha ''act.'')) + int (count_list ''act.'' CHR ''.''))"
    by blast
  moreover have "count_list ''act.'' CHR ''*'' = 0" by code_simp
  ultimately have "''cats'' \<in> words_set ?s \<and>
          (\<forall>c. count_list (filter char_isalpha ''act.'') c \<le> count_list ''cats'' c) \<and>
          int (length ''cats'') - int (length (filter char_isalpha ''act.'')) = int (count_list ''act.'' CHR ''.'')"
    by (simp only: if_True simp_thms)
  with ok wd run show ?thesis by blast
qed

subsection \<open>The display limit\<close>

text \<open>The display loop appends the lines of the first \<^verbatim>\<open>max_disp\<close> results that are left.\<close>

lemma display_loop_take:
  "display_loop render max_disp k rs out = out @ map render (take (nat (max_disp - k)) rs)"
proof (induction rs arbitrary: k out)
  case Nil
  show ?case by simp
next
  case (Cons r rs)
  show ?case
  proof (cases "k \<ge> max_disp")
    case True
    then show ?thesis by simp
  next
    case False
    then have "nat (max_disp - k) = Suc (nat (max_disp - (k + 1)))" by simp
    with False show ?thesis by (simp add: Cons.IH)
  qed
qed

text \<open>
  Claim C10. The pair that the query engine computes does not depend on the display
  limit: the handler of the search button passes \<^verbatim>\<open>max_results\<close> to
  \<^verbatim>\<open>format_results\<close> only, the pair it hands on is the one \<^verbatim>\<open>execute_query\<close> returned
  for the query, the word list, the time limit and the clock, and the display loop cuts
  the listing, not the results: it renders the first \<^verbatim>\<open>max_results\<close> of them.
\<close>

theorem engine_output_independent_of_max_results:
  "engine_output (execute_search py word_cache query m1 t clk)
     = engine_output (execute_search py word_cache query m2 t clk)
   \<and> (query \<noteq> [] \<and> wordlist word_cache \<noteq> [] \<longrightarrow>
        engine_output (execute_search py word_cache query m1 t clk)
          = Some (fst (execute_query py query (PatternMatcher word_cache t clk 1))))
   \<and> display_loop render m1 0 rs out = out @ map render (take (nat m1) rs)"
proof (intro conjI impI)
  show "engine_output (execute_search py word_cache query m1 t clk)
          = engine_output (execute_search py word_cache query m2 t clk)"
    by (simp add: execute_search_def engine_output_def Let_def split: prod.splits sum.splits)
next
  assume "query \<noteq> [] \<and> wordlist word_cache \<noteq> []"
  then show "engine_output (execute_search py word_cache query m1 t clk)
          = Some (fst (execute_query py query (PatternMatcher word_cache t clk 1)))"
    by (simp add: execute_search_def engine_output_def Let_def split: prod.splits sum.splits)
next
  show "display_loop render m1 0 rs out = out @ map render (take (nat m1) rs)"
    using display_loop_take [of render m1 0 rs out] by simp
qed

text \<open>
  The query \<^verbatim>\<open>*\<close> with a limit of 2 and of 1000: the same five results, of which the
  text rendered under the limit 2 lists two.
\<close>

theorem engine_output_independent_of_max_results_witness:
  "''*'' \<noteq> [] \<and> wordlist reversal_words \<noteq> []
   \<and> engine_output (execute_search re_model reversal_words ''*'' 2 5 steady_clock)
       = Some (Inr (Some [(''evil'', None, []), (''live'', None, []), (''noon'', None, []),
                          (''pots'', None, []), (''stop'', None, [])], ''simple''))
   \<and> engine_output (execute_search re_model reversal_words ''*'' 1000 5 steady_clock)
       = engine_output (execute_search re_model reversal_words ''*'' 2 5 steady_clock)
   \<and> execute_search re_model reversal_words ''*'' 2 5 steady_clock
       = Inr (Searched
           (Some [(''evil'', None, []), (''live'', None, []), (''noon'', None, []),
                  (''pots'', None, []), (''stop'', None, [])])
           ''simple''
           (Some (''Found 5 matches:'' @ [CHR 0x0A] @ ''---'' @ [CHR 0x0A] @ ''evil'' @ [CHR 0x0A] @
                  ''live'' @ [CHR 0x0A] @ [CHR 0x0A] @ ''... (displaying 2 of 5 results)'')))"
proof -
  have q: "''*'' \<noteq> []" by simp
  have w: "wordlist reversal_words \<noteq> []" by code_simp
  have e: "fst (execute_query re_model ''*'' (PatternMatcher reversal_words 5 steady_clock 1))
             = Inr (Some [(''evil'', None, []), (''live'', None, []), (''noon'', None, []),
                          (''pots'', None, []), (''stop'', None, [])], ''simple'')"
    by code_simp
  have s: "execute_search re_model reversal_words ''*'' 2 5 steady_clock
       = Inr (Searched
           (Some [(''evil'', None, []), (''live'', None, []), (''noon'', None, []),
                  (''pots'', None, []), (''stop'', None, [])])
           ''simple''
           (Some (''Found 5 matches:'' @ [CHR 0x0A] @ ''---'' @ [CHR 0x0A] @ ''evil'' @ [CHR 0x0A] @
                  ''live'' @ [CHR 0x0A] @ [CHR 0x0A] @ ''... (displaying 2 of 5 results)'')))"
    by code_simp
  note main = engine_output_independent_of_max_results
         [of re_model reversal_words "''*''" 2 5 steady_clock 1000 render_word "[]" "[]"]
  from main have a: "engine_output (execute_search re_model reversal_words ''*'' 2 5 steady_clock)
       = engine_output (execute_search re_model reversal_words ''*'' 1000 5 steady_clock)"
    by (rule conjunct1)
  from main q w
  have "engine_output (execute_search re_model reversal_words ''*'' 2 5 steady_clock)
       = Some (fst (execute_query re_model ''*'' (PatternMatcher reversal_words 5 steady_clock 1)))"
    by blast
  with e have b: "engine_output (execute_search re_model reversal_words ''*'' 2 5 steady_clock)
       = Some (Inr (Some [(''evil'', None, []), (''live'', None, []), (''noon'', None, []),
                          (''pots'', None, []), (''stop'', None, [])], ''simple''))"
    by (simp only:)
  from a have c: "engine_output (execute_search re_model reversal_words ''*'' 1000 5 steady_clock)
       = engine_output (execute_search re_model reversal_words ''*'' 2 5 steady_clock)"
    by (rule sym)
  from b c q w s show ?thesis by blast
qed

subsection \<open>Results name words of the word list\<close>

text \<open>
  No method of the matcher changes the three fields of the word list, and every list
  of matches is drawn from the buckets or from the sorted list.
\<close>

lemma same_index_refl: "same_index s s"
  by (simp add: same_index_def)

lemma same_index_trans: "same_index s t \<Longrightarrow> same_index t u \<Longrightarrow> same_index s u"
  by (simp add: same_index_def)

lemma same_index_index_ok: "same_index s s' \<Longrightarrow> index_ok s' = index_ok s"
  by (simp add: same_index_def index_ok_def)

lemma same_index_in_index: "same_index s s' \<Longrightarrow> in_index s' r = in_index s r"
  by (simp add: same_index_def in_index_def split: prod.splits option.splits)

lemma time_check_frame: "time_check s = (r, s') \<Longrightarrow> same_index s s'"
  by (drule time_check_cases) (simp add: same_index_def)

lemma pattern_to_regex_frame: "pattern_to_regex py p s = (r, s') \<Longrightarrow> same_index s s'"
  by (auto simp: pattern_to_regex_def same_index_def Let_def split: option.splits)

lemma matches_pattern_frame: "matches_pattern py w p lc s = (b, s') \<Longrightarrow> same_index s s'"
  by (auto simp: matches_pattern_def same_index_refl
           split: if_splits prod.splits option.splits dest: pattern_to_regex_frame)

lemma check_segments_frame:
  "check_segments py w pos vds d s = (r, s') \<Longrightarrow> same_index s s'"
proof (induction vds arbitrary: pos d s)
  case Nil
  then show ?case by (simp add: same_index_refl)
next
  case (Cons vd vds)
  let ?part = "slice w pos (pos + vd_len vd)"
  let ?chk = "if vd_reversed vd then rev ?part else ?part"
  obtain b t where m: "matches_pattern py ?chk (vd_pattern vd) (Some (vd_len vd, vd_len vd)) s = (b, t)"
    by (cases "matches_pattern py ?chk (vd_pattern vd) (Some (vd_len vd, vd_len vd)) s")
  from matches_pattern_frame [OF m] have st: "same_index s t" .
  show ?case
  proof (cases b)
    case True
    with Cons.prems m have "check_segments py w (pos + vd_len vd) vds
            (AList.update (vd_name vd) ?chk d) t = (r, s')"
      by (simp add: Let_def)
    from Cons.IH [OF this] st show ?thesis by (rule same_index_trans [rotated])
  next
    case False
    with Cons.prems m have "s' = t" by (simp add: Let_def)
    with st show ?thesis by simp
  qed
qed

lemma anagram_loop_frame:
  "anagram_loop accepts i ws ms s = (r, s') \<Longrightarrow> same_index s s'"
proof (induction ws arbitrary: i ms s)
  case Nil
  then show ?case by (simp add: same_index_refl)
next
  case (Cons w ws)
  obtain c t where ct: "(if i mod 1000 = 0 then time_check s else (Inr (), s)) = (c, t)"
    by (cases "if i mod 1000 = 0 then time_check s else (Inr (), s)")
  then have st: "same_index s t"
    by (auto simp: same_index_refl split: if_splits dest: time_check_frame)
  show ?case
  proof (cases c)
    case (Inl e)
    with Cons.prems ct have "s' = t" by simp
    with st show ?thesis by simp
  next
    case (Inr u)
    with Cons.prems ct
    have "anagram_loop accepts (Suc i) ws (if accepts w then ms @ [w] else ms) t = (r, s')"
      by simp
    from st Cons.IH [OF this] show ?thesis by (rule same_index_trans)
  qed
qed

lemma simple_loop_frame:
  "simple_loop m i ws ms s = (r, s') \<Longrightarrow> same_index s s'"
proof (induction ws arbitrary: i ms s)
  case Nil
  then show ?case by (simp add: same_index_refl)
next
  case (Cons w ws)
  obtain c t where ct: "(if i mod 2000 = 0 then time_check s else (Inr (), s)) = (c, t)"
    by (cases "if i mod 2000 = 0 then time_check s else (Inr (), s)")
  then have st: "same_index s t"
    by (auto simp: same_index_refl split: if_splits dest: time_check_frame)
  show ?case
  proof (cases c)
    case (Inl e)
    with Cons.prems ct have "s' = t" by simp
    with st show ?thesis by simp
  next
    case (Inr u)
    with Cons.prems ct
    have "simple_loop m (Suc i) ws (if m w then ms @ [w] else ms) t = (r, s')"
      by simp
    from st Cons.IH [OF this] show ?thesis by (rule same_index_trans)
  qed
qed

lemma simple_loop_subset:
  "simple_loop m i ws ms s = (Inr r, s') \<Longrightarrow> set r \<subseteq> set ms \<union> set ws"
proof (induction ws arbitrary: i ms s)
  case Nil
  then show ?case by simp
next
  case (Cons w ws)
  obtain c t where ct: "(if i mod 2000 = 0 then time_check s else (Inr (), s)) = (c, t)"
    by (cases "if i mod 2000 = 0 then time_check s else (Inr (), s)")
  show ?case
  proof (cases c)
    case (Inl e)
    with Cons.prems ct show ?thesis by simp
  next
    case (Inr u)
    with Cons.prems ct
    have "simple_loop m (Suc i) ws (if m w then ms @ [w] else ms) t = (Inr r, s')"
      by simp
    from Cons.IH [OF this] show ?thesis by (auto split: if_splits)
  qed
qed

lemma buckets_in_index:
  assumes "index_ok s"
  shows "set (concat (map (get_list (word_by_length s)) ls)) \<subseteq> words_set s"
  using assms by (auto simp: index_ok_bucket)

lemma find_matches_simple_pattern_frame:
  "find_matches_simple_pattern py p s = (r, s') \<Longrightarrow> same_index s s'"
proof -
  assume run: "find_matches_simple_pattern py p s = (r, s')"
  obtain c s1 where ct: "time_check s = (c, s1)" by (cases "time_check s")
  from time_check_frame [OF ct] have 1: "same_index s s1" .
  obtain lc cp where l: "length_constraint_from_pattern p = (lc, cp)"
    by (cases "length_constraint_from_pattern p")
  obtain rx s2 where px: "pattern_to_regex py cp s1 = (rx, s2)" by (cases "pattern_to_regex py cp s1")
  from pattern_to_regex_frame [OF px] 1 have 2: "same_index s s2" by (rule same_index_trans [rotated])
  from run ct l px 1 2 show ?thesis
    by (auto simp: find_matches_simple_pattern_def Let_def
             split: sum.splits if_splits option.splits
             dest!: simple_loop_frame intro: same_index_trans)
qed

lemma find_matches_simple_pattern_subset:
  assumes "index_ok s" and run: "find_matches_simple_pattern py p s = (Inr r, s')"
  shows "set r \<subseteq> words_set s"
proof -
  obtain c s1 where ct: "time_check s = (c, s1)" by (cases "time_check s")
  from time_check_frame [OF ct] have 1: "same_index s s1" .
  with assms have ok1: "index_ok s1" by (simp add: same_index_index_ok)
  from 1 have ws: "words_set s1 = words_set s" by (simp add: same_index_def)
  obtain lc cp where l: "length_constraint_from_pattern p = (lc, cp)"
    by (cases "length_constraint_from_pattern p")
  define cands where "cands = (case lc of
                         Some (mn, mx) \<Rightarrow> concat (map (get_list (word_by_length s1)) [mn..mx])
                       | None \<Rightarrow> wordlist s1)"
  have cs: "set cands \<subseteq> words_set s"
  proof (cases lc)
    case None
    with ok1 ws show ?thesis by (simp add: cands_def index_ok_def)
  next
    case (Some a)
    obtain mn mx where "a = (mn, mx)" by (cases a)
    with Some buckets_in_index [OF ok1, of "[mn..mx]"] ws show ?thesis
      by (simp add: cands_def)
  qed
  obtain rx s2 where px: "pattern_to_regex py cp s1 = (rx, s2)" by (cases "pattern_to_regex py cp s1")
  from run ct l px have
    "r = [] \<or> (\<exists>m. simple_loop m 0 cands [] s2 = (Inr r, s'))"
    by (auto simp: find_matches_simple_pattern_def Let_def cands_def
             split: sum.splits if_splits option.splits)
  then show ?thesis
  proof
    assume "r = []" then show ?thesis by simp
  next
    assume "\<exists>m. simple_loop m 0 cands [] s2 = (Inr r, s')"
    then obtain m where "simple_loop m 0 cands [] s2 = (Inr r, s')" by blast
    from simple_loop_subset [OF this] cs show ?thesis by auto
  qed
qed

lemma process_anagram_pattern_frame:
  "process_anagram_pattern p s = (r, s') \<Longrightarrow> same_index s s'"
proof -
  assume run: "process_anagram_pattern p s = (r, s')"
  show ?thesis
  proof (cases "p \<noteq> [] \<and> hd p = CHR ''/''")
    case False
    with run have "s' = s" by (auto simp: process_anagram_pattern_def)
    then show ?thesis by (simp add: same_index_refl)
  next
    case True
    then obtain content where p: "p = CHR ''/'' # content" by (cases p) auto
    obtain c s1 where ct: "time_check s = (c, s1)" by (cases "time_check s")
    from time_check_frame [OF ct] have 1: "same_index s s1" .
    from time_check_cases [OF ct] have s1: "s1 = s\<lparr>ticks := Suc (ticks s)\<rparr>" by simp
    show ?thesis
    proof (cases c)
      case (Inl e)
      with run p ct have "s' = s1" by (simp add: process_anagram_pattern_unfold)
      with 1 show ?thesis by simp
    next
      case (Inr u)
      with run p ct obtain acc i cands ms r2 where "anagram_loop acc i cands ms s1 = (r2, s')"
        by (auto simp: process_anagram_pattern_unfold split: prod.splits sum.splits)
      from 1 anagram_loop_frame [OF this] show ?thesis by (rule same_index_trans)
    qed
  qed
qed

lemma process_anagram_pattern_subset:
  assumes ok: "index_ok s" and run: "process_anagram_pattern p s = (Inr (Some ms), s')"
  shows "set ms \<subseteq> words_set s"
proof -
  from run have "p \<noteq> [] \<and> hd p = CHR ''/''"
    by (auto simp: process_anagram_pattern_def split: if_splits)
  then obtain content where p: "p = CHR ''/'' # content" by (cases p) auto
  obtain c s1 where ct: "time_check s = (c, s1)" by (cases "time_check s")
  from time_check_frame [OF ct] have 1: "same_index s s1" .
  with ok have ok1: "index_ok s1" by (simp add: same_index_index_ok)
  from 1 have ws: "words_set s1 = words_set s" by (simp add: same_index_def)
  from time_check_cases [OF ct] have s1: "s1 = s\<lparr>ticks := Suc (ticks s)\<rparr>" by simp
  let ?n = "int (length (filter char_isalpha content)) + int (count_list content CHR ''.'')"
  define cands where
    "cands = (if count_list content CHR ''*'' > 0
              then concat (map snd (filter (\<lambda>(l, ws). l \<ge> ?n) (word_by_length s1)))
              else get_list (word_by_length s1) ?n)"
  have cs: "set cands \<subseteq> words_set s"
  proof
    fix w assume "w \<in> set cands"
    then have "w \<in> words_set s1"
      using index_ok_buckets_from [OF ok1, of w ?n] index_ok_bucket [OF ok1, of w ?n]
      by (auto simp: cands_def split: if_splits)
    with ws show "w \<in> words_set s" by simp
  qed
  from run p have run': "process_anagram_pattern (CHR ''/'' # content) s = (Inr (Some ms), s')"
    by simp
  have "\<exists>acc. anagram_loop acc 0 cands [] s1 = (Inr ms, s')"
  proof (cases c)
    case (Inl e)
    with run' ct show ?thesis by (simp add: process_anagram_pattern_unfold)
  next
    case (Inr u)
    with run' ct show ?thesis
      unfolding cands_def
      by (auto simp: process_anagram_pattern_unfold s1 split: prod.splits sum.splits)
  qed
  then obtain acc where "anagram_loop acc 0 cands [] s1 = (Inr ms, s')" by blast
  from anagram_loop_result [OF this] have "ms = filter acc cands" by simp
  with cs show ?thesis by auto
qed

lemma parse_refs_frame:
  "parse_refs variables rest total_len var_details s = (r, s') \<Longrightarrow> same_index s s'"
proof (induction variables rest total_len var_details s rule: parse_refs.induct)
  case (1 variables rest total_len var_details s)
  show ?case
  proof (cases "rest = []")
    case True
    with "1.prems" have "s' = s" by (subst (asm) parse_refs.simps) simp
    then show ?thesis by (simp add: same_index_refl)
  next
    case False
    obtain c t where ct: "time_check s = (c, t)" by (cases "time_check s")
    from time_check_frame [OF ct] have st: "same_index s t" .
    show ?thesis
    proof (cases c)
      case (Inl e)
      with "1.prems" False ct have "s' = t" by (subst (asm) parse_refs.simps) simp
      with st show ?thesis by simp
    next
      case (Inr u)
      show ?thesis
      proof (cases "match_var_ref rest")
        case None
        with "1.prems" False ct Inr have "s' = t" by (subst (asm) parse_refs.simps) simp
        with st show ?thesis by simp
      next
        case (Some a)
        obtain ref name where a: "a = (ref, name)" by (cases a)
        show ?thesis
        proof (cases "map_of variables name")
          case None
          with "1.prems" False ct Inr Some a have "s' = t"
            by (subst (asm) parse_refs.simps) simp
          with st show ?thesis by simp
        next
          case (Some var_info)
          show ?thesis
          proof (cases "vi_min_len var_info \<noteq> vi_max_len var_info")
            case True
            with "1.prems" False ct Inr \<open>match_var_ref rest = Some a\<close> a Some have "s' = t"
              by (subst (asm) parse_refs.simps) simp
            with st show ?thesis by simp
          next
            case eq: False
            with "1.prems" \<open>rest \<noteq> []\<close> ct Inr \<open>match_var_ref rest = Some a\<close> a Some
            have "parse_refs variables (drop (length ref + length name) rest)
                    (total_len + vi_min_len var_info)
                    (var_details @
                       [\<lparr> vd_name = name, vd_len = vi_min_len var_info,
                          vd_pattern = vi_pattern var_info, vd_reversed = (ref = ''~'') \<rparr>])
                    t = (r, s')"
              by (subst (asm) parse_refs.simps) simp
            from "1.IH" [OF \<open>rest \<noteq> []\<close> ct [unfolded Inr, symmetric] refl
                  \<open>match_var_ref rest = Some a\<close> [unfolded a] refl Some _ this] eq
            have "same_index t s'" by simp
            with st show ?thesis by (rule same_index_trans)
          qed
        qed
      qed
    qed
  qed
qed

lemma scan_single_frame:
  "scan_single py vds ws acc s = (r, s') \<Longrightarrow> same_index s s'"
proof (induction ws arbitrary: acc s)
  case Nil
  then show ?case by (simp add: same_index_refl)
next
  case (Cons w ws)
  obtain c t where ct: "time_check s = (c, t)" by (cases "time_check s")
  from time_check_frame [OF ct] have st: "same_index s t" .
  show ?case
  proof (cases c)
    case (Inl e)
    with Cons.prems ct have "s' = t" by simp
    with st show ?thesis by simp
  next
    case (Inr u)
    obtain d t' where cs: "check_segments py w 0 vds [] t = (d, t')"
      by (cases "check_segments py w 0 vds [] t")
    from st check_segments_frame [OF cs] have st': "same_index s t'" by (rule same_index_trans)
    from Cons.prems ct Inr cs obtain acc' where "scan_single py vds ws acc' t' = (r, s')"
      by (cases d) auto
    from st' Cons.IH [OF this] show ?thesis by (rule same_index_trans)
  qed
qed

lemma scan_single_in_index:
  "scan_single py vds ws acc s = (Inr r, s') \<Longrightarrow>
   \<forall>x \<in> set acc. in_index s0 x \<Longrightarrow> set ws \<subseteq> words_set s0 \<Longrightarrow>
   \<forall>x \<in> set r. in_index s0 x"
proof (induction ws arbitrary: acc s)
  case Nil
  then show ?case by simp
next
  case (Cons w ws)
  obtain c t where ct: "time_check s = (c, t)" by (cases "time_check s")
  show ?case
  proof (cases c)
    case (Inl e)
    with Cons.prems ct show ?thesis by simp
  next
    case (Inr u)
    obtain d t' where cs: "check_segments py w 0 vds [] t = (d, t')"
      by (cases "check_segments py w 0 vds [] t")
    from Cons.prems(3) have w: "w \<in> words_set s0" and ws: "set ws \<subseteq> words_set s0" by simp_all
    show ?thesis
    proof (cases d)
      case None
      with Cons.prems(1) ct Inr cs have "scan_single py vds ws acc t' = (Inr r, s')"
        by simp
      from Cons.IH [OF this Cons.prems(2) ws] show ?thesis .
    next
      case (Some decomp)
      with Cons.prems(1) ct Inr cs
      have run: "scan_single py vds ws (acc @ [(w, None, decomp)]) t' = (Inr r, s')"
        by simp
      from Cons.prems(2) w have "\<forall>x \<in> set (acc @ [(w, None, decomp)]). in_index s0 x"
        by (simp add: in_index_def)
      from Cons.IH [OF run this ws] show ?thesis .
    qed
  qed
qed

lemma collect_words_frame:
  "collect_words py p l ws acc s = (r, s') \<Longrightarrow> same_index s s'"
proof (induction ws arbitrary: acc s)
  case Nil
  then show ?case by (simp add: same_index_refl)
next
  case (Cons w ws)
  obtain c t where ct: "time_check s = (c, t)" by (cases "time_check s")
  from time_check_frame [OF ct] have st: "same_index s t" .
  show ?case
  proof (cases c)
    case (Inl e)
    with Cons.prems ct have "s' = t" by simp
    with st show ?thesis by simp
  next
    case (Inr u)
    obtain b t' where m: "matches_pattern py w p (Some (l, l)) t = (b, t')"
      by (cases "matches_pattern py w p (Some (l, l)) t")
    from st matches_pattern_frame [OF m] have st': "same_index s t'" by (rule same_index_trans)
    from Cons.prems ct Inr m
    have "collect_words py p l ws (if b then acc @ [w] else acc) t' = (r, s')"
      by simp
    from st' Cons.IH [OF this] show ?thesis by (rule same_index_trans)
  qed
qed

lemma collect_words_subset:
  "collect_words py p l ws acc s = (Inr r, s') \<Longrightarrow> set r \<subseteq> set acc \<union> set ws"
proof (induction ws arbitrary: acc s)
  case Nil
  then show ?case by simp
next
  case (Cons w ws)
  obtain c t where ct: "time_check s = (c, t)" by (cases "time_check s")
  show ?case
  proof (cases c)
    case (Inl e)
    with Cons.prems ct show ?thesis by simp
  next
    case (Inr u)
    obtain b t' where m: "matches_pattern py w p (Some (l, l)) t = (b, t')"
      by (cases "matches_pattern py w p (Some (l, l)) t")
    from Cons.prems ct Inr m
    have "collect_words py p l ws (if b then acc @ [w] else acc) t' = (Inr r, s')"
      by simp
    from Cons.IH [OF this] show ?thesis by (auto split: if_splits)
  qed
qed

lemma collect_lengths_frame:
  "collect_lengths py p ls acc s = (r, s') \<Longrightarrow> same_index s s'"
proof (induction ls arbitrary: acc s)
  case Nil
  then show ?case by (simp add: same_index_refl)
next
  case (Cons l ls)
  obtain c t where cw: "collect_words py p l (get_list (word_by_length s) l) acc s = (c, t)"
    by (cases "collect_words py p l (get_list (word_by_length s) l) acc s")
  from collect_words_frame [OF cw] have st: "same_index s t" .
  show ?case
  proof (cases c)
    case (Inl e)
    with Cons.prems cw have "s' = t" by simp
    with st show ?thesis by simp
  next
    case (Inr acc')
    with Cons.prems cw have "collect_lengths py p ls acc' t = (r, s')" by simp
    from st Cons.IH [OF this] show ?thesis by (rule same_index_trans)
  qed
qed

lemma collect_lengths_subset:
  "collect_lengths py p ls acc s = (Inr r, s') \<Longrightarrow> index_ok s \<Longrightarrow>
   set acc \<subseteq> words_set s \<Longrightarrow> set r \<subseteq> words_set s"
proof (induction ls arbitrary: acc s)
  case Nil
  then show ?case by simp
next
  case (Cons l ls)
  obtain c t where cw: "collect_words py p l (get_list (word_by_length s) l) acc s = (c, t)"
    by (cases "collect_words py p l (get_list (word_by_length s) l) acc s")
  from collect_words_frame [OF cw] have st: "same_index s t" .
  then have ws: "words_set t = words_set s" by (simp add: same_index_def)
  from st Cons.prems(2) have okt: "index_ok t" by (simp add: same_index_index_ok)
  show ?case
  proof (cases c)
    case (Inl e)
    with Cons.prems cw show ?thesis by simp
  next
    case (Inr acc')
    with Cons.prems(1) cw have run: "collect_lengths py p ls acc' t = (Inr r, s')" by simp
    from cw Inr have "set acc' \<subseteq> set acc \<union> set (get_list (word_by_length s) l)"
      by (auto dest: collect_words_subset)
    moreover have "set (get_list (word_by_length s) l) \<subseteq> words_set s"
      using Cons.prems(2) by (auto simp: index_ok_bucket)
    ultimately have "set acc' \<subseteq> words_set t" using Cons.prems(3) ws by auto
    from Cons.IH [OF run okt this] ws show ?thesis by simp
  qed
qed

lemma pair_loop_frame:
  "pair_loop var_name cset ws found acc s = (r, s') \<Longrightarrow> same_index s s'"
proof (induction ws arbitrary: found acc s)
  case Nil
  then show ?case by (simp add: same_index_refl)
next
  case (Cons w ws)
  obtain c t where ct: "time_check s = (c, t)" by (cases "time_check s")
  from time_check_frame [OF ct] have st: "same_index s t" .
  show ?case
  proof (cases c)
    case (Inl e)
    with Cons.prems ct have "s' = t" by simp
    with st show ?thesis by simp
  next
    case (Inr u)
    with Cons.prems ct obtain found' acc' where "pair_loop var_name cset ws found' acc' t = (r, s')"
      by (auto simp: Let_def split: if_splits)
    from st Cons.IH [OF this] show ?thesis by (rule same_index_trans)
  qed
qed

lemma pair_loop_in_index:
  "pair_loop var_name cset ws found acc s = (Inr r, s') \<Longrightarrow>
   \<forall>x \<in> set acc. in_index s0 x \<Longrightarrow> set ws \<subseteq> words_set s0 \<Longrightarrow> cset \<subseteq> words_set s0 \<Longrightarrow>
   \<forall>x \<in> set r. in_index s0 x"
proof (induction ws arbitrary: found acc s)
  case Nil
  then show ?case by simp
next
  case (Cons w ws)
  obtain c t where ct: "time_check s = (c, t)" by (cases "time_check s")
  from Cons.prems(3) have w: "w \<in> words_set s0" and ws: "set ws \<subseteq> words_set s0" by simp_all
  show ?case
  proof (cases c)
    case (Inl e)
    with Cons.prems ct show ?thesis by simp
  next
    case (Inr u)
    show ?thesis
    proof (cases "w \<noteq> rev w \<and> rev w \<in> cset \<and> sorted_pair w (rev w) \<notin> found")
      case True
      with Cons.prems(1) ct Inr
      have run: "pair_loop var_name cset ws (insert (sorted_pair w (rev w)) found)
                   (acc @ [(w, Some (rev w), [(var_name, w)])]) t = (Inr r, s')"
        by (simp add: Let_def)
      from True Cons.prems(4) have "rev w \<in> words_set s0" by auto
      with Cons.prems(2) w
      have "\<forall>x \<in> set (acc @ [(w, Some (rev w), [(var_name, w)])]). in_index s0 x"
        by (simp add: in_index_def)
      from Cons.IH [OF run this ws Cons.prems(4)] show ?thesis .
    next
      case False
      with Cons.prems(1) ct Inr
      have run: "pair_loop var_name cset ws found acc t = (Inr r, s')"
        by (auto simp: Let_def split: if_splits)
      from Cons.IH [OF run Cons.prems(2) ws Cons.prems(4)] show ?thesis .
    qed
  qed
qed

lemma self_reverse_pairs_frame:
  "self_reverse_pairs py variables p1 p2 s = (r, s') \<Longrightarrow> same_index s s'"
proof -
  assume run: "self_reverse_pairs py variables p1 p2 s = (r, s')"
  show ?thesis
  proof (cases "\<exists>n vi. match_bare_var p1 = Some n \<and> match_tilde_var p2 = Some n \<and>
                        map_of variables n = Some vi")
    case False
    with run have "s' = s"
      by (auto simp: self_reverse_pairs_def split: option.splits if_splits)
    then show ?thesis by (simp add: same_index_refl)
  next
    case True
    then obtain n vi where n: "match_bare_var p1 = Some n" "match_tilde_var p2 = Some n"
      "map_of variables n = Some vi" by blast
    obtain c t where cl: "collect_lengths py (vi_pattern vi) [vi_min_len vi..vi_max_len vi] [] s = (c, t)"
      by (cases "collect_lengths py (vi_pattern vi) [vi_min_len vi..vi_max_len vi] [] s")
    from collect_lengths_frame [OF cl] have st: "same_index s t" .
    show ?thesis
    proof (cases c)
      case (Inl e)
      with run n cl have "s' = t" by (simp add: self_reverse_pairs_def)
      with st show ?thesis by simp
    next
      case (Inr cands)
      obtain c2 t2 where pl: "pair_loop n (set cands) cands {} [] t = (c2, t2)"
        by (cases "pair_loop n (set cands) cands {} [] t")
      from st pair_loop_frame [OF pl] have "same_index s t2" by (rule same_index_trans)
      moreover from run n cl Inr pl have "s' = t2"
        by (cases c2) (simp_all add: self_reverse_pairs_def)
      ultimately show ?thesis by simp
    qed
  qed
qed

lemma self_reverse_pairs_in_index:
  assumes ok: "index_ok s"
    and run: "self_reverse_pairs py variables p1 p2 s = (Inr (Some (rs, h)), s')"
  shows "\<forall>x \<in> set rs. in_index s x"
proof (cases "\<exists>n vi. match_bare_var p1 = Some n \<and> match_tilde_var p2 = Some n \<and>
                      map_of variables n = Some vi")
  case False
  with run have "rs = []"
    by (auto simp: self_reverse_pairs_def split: option.splits if_splits)
  then show ?thesis by simp
next
  case True
  then obtain n vi where n: "match_bare_var p1 = Some n" "match_tilde_var p2 = Some n"
    "map_of variables n = Some vi" by blast
  obtain c t where cl: "collect_lengths py (vi_pattern vi) [vi_min_len vi..vi_max_len vi] [] s = (c, t)"
    by (cases "collect_lengths py (vi_pattern vi) [vi_min_len vi..vi_max_len vi] [] s")
  show ?thesis
  proof (cases c)
    case (Inl e)
    with run n cl show ?thesis by (simp add: self_reverse_pairs_def)
  next
    case (Inr cands)
    with cl ok have cs: "set cands \<subseteq> words_set s"
      by (auto dest: collect_lengths_subset)
    obtain c2 t2 where pl: "pair_loop n (set cands) cands {} [] t = (c2, t2)"
      by (cases "pair_loop n (set cands) cands {} [] t")
    from run n cl Inr pl have "c2 = Inr rs"
      by (cases c2) (simp_all add: self_reverse_pairs_def)
    with pl have "pair_loop n (set cands) cands {} [] t = (Inr rs, t2)" by simp
    from pair_loop_in_index [OF this, of s] cs show ?thesis by simp
  qed
qed

lemma build_structure_frame:
  "build_structure variables refs total_len structure1 s = (r, s') \<Longrightarrow> same_index s s'"
proof (induction refs arbitrary: total_len structure1 s)
  case Nil
  then show ?case by (simp add: same_index_refl)
next
  case (Cons ref refs)
  obtain c t where ct: "time_check s = (c, t)" by (cases "time_check s")
  from time_check_frame [OF ct] have st: "same_index s t" .
  show ?case
  proof (cases c)
    case (Inl e)
    with Cons.prems ct have "s' = t" by simp
    with st show ?thesis by simp
  next
    case (Inr u)
    show ?thesis
    proof (cases "\<exists>tl' st'. build_structure variables refs tl' st' t = (r, s')")
      case True
      then obtain tl' st' where "build_structure variables refs tl' st' t = (r, s')" by blast
      from st Cons.IH [OF this] show ?thesis by (rule same_index_trans)
    next
      case False
      with Cons.prems ct Inr have "s' = t"
        by (auto simp: Let_def split: option.splits if_splits)
      with st show ?thesis by simp
    qed
  qed
qed

lemma scan_reversal_in_index:
  "scan_reversal py structure1 vars2 ws found acc s = (Inr r, s') \<Longrightarrow>
   \<forall>x \<in> set acc. in_index s x \<Longrightarrow> set ws \<subseteq> words_set s \<Longrightarrow>
   \<forall>x \<in> set r. in_index s x"
proof (induction ws arbitrary: found acc s)
  case Nil
  then show ?case by simp
next
  case (Cons w ws)
  obtain c t where ct: "time_check s = (c, t)" by (cases "time_check s")
  from time_check_frame [OF ct] have st: "same_index s t" .
  from Cons.prems(3) have w: "w \<in> words_set s" and ws: "set ws \<subseteq> words_set s" by simp_all
  show ?case
  proof (cases c)
    case (Inl e)
    with Cons.prems ct show ?thesis by simp
  next
    case (Inr u)
    obtain d t' where cs: "check_segments py w 0 structure1 [] t = (d, t')"
      by (cases "check_segments py w 0 structure1 [] t")
    from st check_segments_frame [OF cs] have st': "same_index s t'" by (rule same_index_trans)
    then have wst: "words_set t' = words_set s" by (simp add: same_index_def)
    have step: "\<forall>x \<in> set r. in_index s x"
      if run: "scan_reversal py structure1 vars2 ws found' acc' t' = (Inr r, s')"
        and acc': "\<forall>x \<in> set acc'. in_index s x" for found' acc'
    proof -
      from acc' st' have "\<forall>x \<in> set acc'. in_index t' x" by (simp add: same_index_in_index)
      moreover from ws wst have "set ws \<subseteq> words_set t'" by simp
      ultimately have "\<forall>x \<in> set r. in_index t' x" using Cons.IH [OF run] by blast
      with st' show ?thesis by (simp add: same_index_in_index)
    qed
    show ?thesis
    proof (cases d)
      case None
      with Cons.prems(1) ct Inr cs
      have "scan_reversal py structure1 vars2 ws found acc t' = (Inr r, s')" by simp
      from step [OF this Cons.prems(2)] show ?thesis .
    next
      case (Some parts)
      show ?thesis
      proof (cases "build_word2 parts vars2 []")
        case (Inl e)
        with Cons.prems(1) ct Inr cs Some
        have "scan_reversal py structure1 vars2 ws found acc t' = (Inr r, s')" by simp
        from step [OF this Cons.prems(2)] show ?thesis .
      next
        case word2: (Inr word2)
        show ?thesis
        proof (cases "word2 \<in> words_set t' \<and> \<not> (w = word2 \<and> sort parts \<in> found)")
          case True
          with Cons.prems(1) ct Inr cs Some word2
          have run: "scan_reversal py structure1 vars2 ws (insert (sort parts) found)
                       (acc @ [(w, Some word2, parts)]) t' = (Inr r, s')"
            by (simp add: Let_def)
          from True wst w Cons.prems(2)
          have "\<forall>x \<in> set (acc @ [(w, Some word2, parts)]). in_index s x"
            by (simp add: in_index_def)
          from step [OF run this] show ?thesis .
        next
          case False
          with Cons.prems(1) ct Inr cs Some word2
          have "scan_reversal py structure1 vars2 ws found acc t' = (Inr r, s')"
            by (auto simp: Let_def split: if_splits)
          from step [OF this Cons.prems(2)] show ?thesis .
        qed
      qed
    qed
  qed
qed

lemma solve_single_in_index:
  assumes ok: "index_ok s"
    and run: "solve_single py variables pattern s = (Inr r, s')"
  shows "\<forall>x \<in> set r. in_index s x"
proof (cases "replace CHR ''~'' [] (concat (findall_var_refs pattern)) = replace CHR ''~'' [] pattern")
  case False
  with run have "r = []" by (simp add: solve_single_def Let_def)
  then show ?thesis by simp
next
  case True
  obtain c t where pr: "parse_refs variables pattern 0 [] s = (c, t)"
    by (cases "parse_refs variables pattern 0 [] s")
  from parse_refs_frame [OF pr] have st: "same_index s t" .
  show ?thesis
  proof (cases c)
    case (Inl e)
    with run True pr show ?thesis by (simp add: solve_single_def Let_def)
  next
    case (Inr ex)
    show ?thesis
    proof (cases ex)
      case (Parsed a)
      obtain total_len var_details where a: "a = (total_len, var_details)" by (cases a)
      with run True pr Inr Parsed
      have sc: "scan_single py var_details (get_list (word_by_length t) total_len) [] t
              = (Inr r, s')"
        by (simp add: solve_single_def Let_def)
      from st ok have "index_ok t" by (simp add: same_index_index_ok)
      then have "set (get_list (word_by_length t) total_len) \<subseteq> words_set t"
        by (auto simp: index_ok_bucket)
      with st have "set (get_list (word_by_length t) total_len) \<subseteq> words_set s"
        by (simp add: same_index_def)
      from scan_single_in_index [OF sc _ this] show ?thesis by simp
    next
      case Rejected
      with run True pr Inr have "r = []" by (simp add: solve_single_def Let_def)
      then show ?thesis by simp
    next
      case Invalid
      with run True pr Inr have "r = []" by (simp add: solve_single_def Let_def)
      then show ?thesis by simp
    qed
  qed
qed

lemma solve_pair_in_index:
  assumes ok: "index_ok s"
    and run: "solve_pair py variables p1 p2 s = (Inr r, s')"
  shows "\<forall>x \<in> set r. in_index s x"
proof -
  obtain c s1 where sr: "self_reverse_pairs py variables p1 p2 s = (c, s1)"
    by (cases "self_reverse_pairs py variables p1 p2 s")
  from self_reverse_pairs_frame [OF sr] have 1: "same_index s s1" .
  show ?thesis
  proof (cases c)
    case (Inl e)
    with run sr show ?thesis by (simp add: solve_pair_def)
  next
    case (Inr opt)
    show ?thesis
    proof (cases opt)
      case None
      with run sr Inr have "r = []" by (simp add: solve_pair_def)
      then show ?thesis by simp
    next
      case (Some a)
      obtain results_paired handled where a: "a = (results_paired, handled)" by (cases a)
      from sr Inr Some a ok have rp: "\<forall>x \<in> set results_paired. in_index s x"
        by (auto dest: self_reverse_pairs_in_index)
      define second where
        "second \<longleftrightarrow>
           length (findall_var_refs p1) > 0 \<and>
           length (findall_var_refs p1) = length (findall_var_refs p2) \<and>
           replace CHR ''~'' [] (concat (findall_var_refs p1)) = replace CHR ''~'' [] p1 \<and>
           replace CHR ''~'' [] (concat (findall_var_refs p2)) = replace CHR ''~'' [] p2 \<and>
           map (replace CHR ''~'' []) (findall_var_refs p1)
             = rev (map (replace CHR ''~'' []) (findall_var_refs p2))"
      show ?thesis
      proof (cases second)
        case False
        with run sr Inr Some a have "r = [] \<or> r = results_paired"
          by (auto simp: solve_pair_def Let_def second_def split: if_splits)
        with rp show ?thesis by auto
      next
        case True
        obtain c2 s2 where bs: "build_structure variables (findall_var_refs p1) 0 [] s1 = (c2, s2)"
          by (cases "build_structure variables (findall_var_refs p1) 0 [] s1")
        from 1 build_structure_frame [OF bs] have 2: "same_index s s2" by (rule same_index_trans)
        from run sr Inr Some a True bs
        have run2: "(case c2 of
                 Inl e \<Rightarrow> (Inl e, s2)
               | Inr None \<Rightarrow> (Inr results_paired, s2)
               | Inr (Some (total_len, structure1)) \<Rightarrow>
                   scan_reversal py structure1 (findall_var_refs p2)
                     (get_list (word_by_length s2) total_len) {} results_paired s2) = (Inr r, s')"
          unfolding second_def
          by (simp add: solve_pair_def Let_def split: sum.splits option.splits prod.splits)
        show ?thesis
        proof (cases c2)
          case (Inl e)
          with run2 show ?thesis by simp
        next
          case c2: (Inr opt2)
          show ?thesis
          proof (cases opt2)
            case None
            with run2 c2 have "r = results_paired" by simp
            with rp show ?thesis by simp
          next
            case (Some b)
            obtain total_len structure1 where b: "b = (total_len, structure1)" by (cases b)
            with run2 c2 Some
            have sc: "scan_reversal py structure1 (findall_var_refs p2)
                     (get_list (word_by_length s2) total_len) {} results_paired s2 = (Inr r, s')"
              by simp
            from 2 ok have "index_ok s2" by (simp add: same_index_index_ok)
            then have bucket: "set (get_list (word_by_length s2) total_len) \<subseteq> words_set s2"
              by (auto simp: index_ok_bucket)
            from rp 2 have "\<forall>x \<in> set results_paired. in_index s2 x"
              by (simp add: same_index_in_index)
            from scan_reversal_in_index [OF sc this bucket] 2 show ?thesis
              by (simp add: same_index_in_index)
          qed
        qed
      qed
    qed
  qed
qed

lemma solve_equation_in_index:
  assumes ok: "index_ok s"
    and run: "solve_equation py variables patterns s = (Inr r, s')"
  shows "\<forall>x \<in> set r. in_index s x"
proof -
  define t where "t = s\<lparr>ticks := Suc (ticks s), start_time := clock s (ticks s)\<rparr>"
  have st: "same_index s t" by (simp add: same_index_def t_def)
  with ok have okt: "index_ok t" by (simp add: same_index_index_ok)
  from run have
    "r = [] \<or> solve_single py variables (patterns ! 0) t = (Inr r, s') \<or>
     solve_pair py variables (patterns ! 0) (patterns ! 1) t = (Inr r, s')"
    by (auto simp: solve_equation_def time_time_def Let_def t_def split: if_splits)
  then have "\<forall>x \<in> set r. in_index t x"
    using solve_single_in_index [OF okt] solve_pair_in_index [OF okt] by auto
  with st show ?thesis by (simp add: same_index_in_index)
qed

lemma parse_definitions_frame:
  "parse_definitions vs variables s = (r, s') \<Longrightarrow> same_index s s'"
proof (induction vs arbitrary: variables s)
  case Nil
  then show ?case by (simp add: same_index_refl)
next
  case (Cons v vs)
  obtain c t where ct: "time_check s = (c, t)" by (cases "time_check s")
  from time_check_frame [OF ct] have st: "same_index s t" .
  show ?case
  proof (cases c)
    case (Inl e)
    with Cons.prems ct have "s' = t" by simp
    with st show ?thesis by simp
  next
    case (Inr u)
    with Cons.prems ct obtain variables' where "parse_definitions vs variables' t = (r, s')"
      by (cases "parse_variable_definition v") auto
    from st Cons.IH [OF this] show ?thesis by (rule same_index_trans)
  qed
qed

text \<open>One round of the intersection loop: the matches of one clause, as a set.\<close>

lemma clause_matches_in_index:
  assumes ok: "index_ok s"
    and run: "(if startswith pattern CHR ''/''
               then (case process_anagram_pattern pattern s of
                       (Inl e, s2) \<Rightarrow> (Inl e, s2)
                     | (Inr None, s2) \<Rightarrow> (Inr {}, s2)
                     | (Inr (Some matches_list), s2) \<Rightarrow> (Inr (set matches_list), s2))
               else (case find_matches_simple_pattern py pattern s of
                       (Inl e, s2) \<Rightarrow> (Inl e, s2)
                     | (Inr matches_list, s2) \<Rightarrow> (Inr (set matches_list), s2))) = (c, s')"
  shows "same_index s s' \<and> (\<forall>cur. c = Inr cur \<longrightarrow> finite cur \<and> cur \<subseteq> words_set s)"
proof (cases "startswith pattern CHR ''/''")
  case True
  obtain c1 t where pa: "process_anagram_pattern pattern s = (c1, t)"
    by (cases "process_anagram_pattern pattern s")
  from process_anagram_pattern_frame [OF pa] have st: "same_index s t" .
  show ?thesis
  proof (cases c1)
    case (Inl e)
    with run True pa st show ?thesis by auto
  next
    case (Inr opt)
    show ?thesis
    proof (cases opt)
      case None
      with run True pa Inr st show ?thesis by auto
    next
      case (Some ms)
      with pa Inr ok have "set ms \<subseteq> words_set s"
        by (auto dest: process_anagram_pattern_subset)
      with run True pa Inr Some st show ?thesis by auto
    qed
  qed
next
  case False
  obtain c1 t where fm: "find_matches_simple_pattern py pattern s = (c1, t)"
    by (cases "find_matches_simple_pattern py pattern s")
  from find_matches_simple_pattern_frame [OF fm] have st: "same_index s t" .
  show ?thesis
  proof (cases c1)
    case (Inl e)
    with run False fm st show ?thesis by auto
  next
    case (Inr ms)
    with fm ok have "set ms \<subseteq> words_set s"
      by (auto dest: find_matches_simple_pattern_subset)
    with run False fm Inr st show ?thesis by auto
  qed
qed

lemma intersect_loop_in_index:
  "intersect_loop py i ps common s = (Inr (Some c), s') \<Longrightarrow> index_ok s \<Longrightarrow>
   (\<forall>c0. common = Some c0 \<longrightarrow> finite c0 \<and> c0 \<subseteq> words_set s) \<Longrightarrow>
   finite c \<and> c \<subseteq> words_set s"
proof (induction ps arbitrary: i common s)
  case Nil
  then show ?case by simp
next
  case (Cons pattern ps)
  obtain c1 s1 where ct: "time_check s = (c1, s1)" by (cases "time_check s")
  from time_check_frame [OF ct] have 1: "same_index s s1" .
  with Cons.prems(2) have ok1: "index_ok s1" by (simp add: same_index_index_ok)
  from 1 have ws1: "words_set s1 = words_set s" by (simp add: same_index_def)
  show ?case
  proof (cases c1)
    case (Inl e)
    with Cons.prems(1) ct show ?thesis by simp
  next
    case (Inr u)
    define round where
      "round = (if startswith pattern CHR ''/''
               then (case process_anagram_pattern pattern s1 of
                       (Inl e, s2) \<Rightarrow> (Inl e, s2)
                     | (Inr None, s2) \<Rightarrow> (Inr {}, s2)
                     | (Inr (Some matches_list), s2) \<Rightarrow> (Inr (set matches_list), s2))
               else (case find_matches_simple_pattern py pattern s1 of
                       (Inl e, s2) \<Rightarrow> (Inl e, s2)
                     | (Inr matches_list, s2) \<Rightarrow> (Inr (set matches_list), s2)))"
    obtain c2 s2 where rd: "round = (c2, s2)" by (cases round)
    from clause_matches_in_index [OF ok1 rd [unfolded round_def]]
    have 12: "same_index s1 s2"
      and cur: "\<And>cur. c2 = Inr cur \<Longrightarrow> finite cur \<and> cur \<subseteq> words_set s1"
      by blast+
    from 1 12 have 2: "same_index s s2" by (rule same_index_trans)
    then have ws2: "words_set s2 = words_set s" by (simp add: same_index_def)
    from 2 Cons.prems(2) have ok2: "index_ok s2" by (simp add: same_index_index_ok)
    from Cons.prems(1) ct Inr rd
    have run: "(case c2 of
                  Inl e \<Rightarrow> (Inl e, s2)
                | Inr current_matches \<Rightarrow>
                    (case (if i = 0 then Inr current_matches
                           else (case common of
                                   None \<Rightarrow> Inl TypeError
                                 | Some c \<Rightarrow> Inr (c \<inter> current_matches)))
                     of
                       Inl e \<Rightarrow> (Inl e, s2)
                     | Inr common' \<Rightarrow>
                         if common' = {} then (Inr (Some common'), s2)
                         else intersect_loop py (Suc i) ps (Some common') s2))
               = (Inr (Some c), s')"
      by (simp add: round_def [symmetric])
    show ?thesis
    proof (cases c2)
      case (Inl e)
      with run show ?thesis by simp
    next
      case cm: (Inr current_matches)
      from cur [OF cm] ws1 have cmf: "finite current_matches" "current_matches \<subseteq> words_set s"
        by simp_all
      define nxt where
        "nxt = (if i = 0 then Inr current_matches
                else (case common of
                        None \<Rightarrow> Inl TypeError
                      | Some c \<Rightarrow> Inr (c \<inter> current_matches)))"
      show ?thesis
      proof (cases nxt)
        case (Inl e)
        with run cm show ?thesis by (simp add: nxt_def [symmetric])
      next
        case nx: (Inr common')
        have c': "finite common' \<and> common' \<subseteq> words_set s"
          using nx cmf by (auto simp: nxt_def split: if_splits option.splits)
        show ?thesis
        proof (cases "common' = {}")
          case True
          with run cm nx have "c = common'" by (simp add: nxt_def [symmetric])
          with c' show ?thesis by simp
        next
          case False
          with run cm nx
          have rec: "intersect_loop py (Suc i) ps (Some common') s2 = (Inr (Some c), s')"
            by (simp add: nxt_def [symmetric])
          from c' ws2 have "\<forall>c0. Some common' = Some c0 \<longrightarrow> finite c0 \<and> c0 \<subseteq> words_set s2"
            by simp
          from Cons.IH [OF rec ok2 this] ws2 show ?thesis by simp
        qed
      qed
    qed
  qed
qed

text \<open>The dispatcher and the query as a whole.\<close>

lemma plain_results_in_index:
  "set ms \<subseteq> words_set s \<Longrightarrow> \<forall>x \<in> set (map (\<lambda>m. (m, None, [])) ms). in_index s x"
  by (auto simp: in_index_def)

lemma dispatch_in_index:
  assumes ok: "index_ok s"
    and run: "dispatch py variables sp s = (Inr (rs, rt), s')"
  shows "\<forall>x \<in> set rs. in_index s x"
proof (cases "variables \<noteq> [] \<and> sp \<noteq> []")
  case True
  obtain c t where se: "solve_equation py variables sp s = (c, t)"
    by (cases "solve_equation py variables sp s")
  with run True have "c = Inr rs" by (cases c) (simp_all add: dispatch_def)
  with se ok show ?thesis by (auto dest: solve_equation_in_index)
next
  case eq: False
  show ?thesis
  proof (cases "length sp = 1")
    case True
    show ?thesis
    proof (cases "startswith (sp ! 0) CHR ''/''")
      case sl: True
      obtain c t where pa: "process_anagram_pattern (sp ! 0) s = (c, t)"
        by (cases "process_anagram_pattern (sp ! 0) s")
      with run eq True sl obtain ms where "c = Inr (Some ms)" "rs = map (\<lambda>m. (m, None, [])) ms"
        by (auto simp: dispatch_def Let_def split: sum.splits option.splits)
      with pa ok show ?thesis
        by (auto dest!: process_anagram_pattern_subset intro!: plain_results_in_index [rule_format])
    next
      case sl: False
      obtain c t where fm: "find_matches_simple_pattern py (sp ! 0) s = (c, t)"
        by (cases "find_matches_simple_pattern py (sp ! 0) s")
      with run eq True sl obtain ms where "c = Inr ms" "rs = map (\<lambda>m. (m, None, [])) ms"
        by (auto simp: dispatch_def Let_def split: sum.splits)
      with fm ok show ?thesis
        by (auto dest!: find_matches_simple_pattern_subset intro!: plain_results_in_index [rule_format])
    qed
  next
    case one: False
    show ?thesis
    proof (cases "length sp > 1")
      case True
      obtain c t where il: "intersect_loop py 0 sp None s = (c, t)"
        by (cases "intersect_loop py 0 sp None s")
      with run eq one True
      have "rs = [] \<or> (\<exists>cm. c = Inr (Some cm) \<and>
                rs = map (\<lambda>m. (m, None, [])) (sorted_list_of_set cm))"
        by (auto simp: dispatch_def split: sum.splits option.splits)
      then show ?thesis
      proof
        assume "rs = []" then show ?thesis by simp
      next
        assume "\<exists>cm. c = Inr (Some cm) \<and> rs = map (\<lambda>m. (m, None, [])) (sorted_list_of_set cm)"
        then obtain cm where cm: "c = Inr (Some cm)"
          and rs: "rs = map (\<lambda>m. (m, None, [])) (sorted_list_of_set cm)" by blast
        from il cm have "intersect_loop py 0 sp None s = (Inr (Some cm), t)" by simp
        from intersect_loop_in_index [OF this ok] have "finite cm" "cm \<subseteq> words_set s"
          by simp_all
        then have "set (sorted_list_of_set cm) \<subseteq> words_set s" by simp
        from plain_results_in_index [OF this] rs show ?thesis by simp
      qed
    next
      case False
      with run eq one have "rs = []" by (simp add: dispatch_def)
      then show ?thesis by simp
    qed
  qed
qed

text \<open>
  Claim C9. On a well-formed word list, every result that \<^verbatim>\<open>execute_query\<close> returns
  names words of the word list only: its primary word is in \<^verbatim>\<open>words_set\<close>, and so is
  its secondary word when there is one.
\<close>

theorem results_in_index:
  assumes ok: "index_ok s"
    and run: "execute_query py query s = (Inr (Some rs, rt), s')"
  shows "\<forall>(primary, secondary, bindings) \<in> set rs.
            primary \<in> words_set s \<and> (\<forall>w. secondary = Some w \<longrightarrow> w \<in> words_set s)"
proof -
  define s2 where
    "s2 = s\<lparr>ticks := Suc (ticks s), start_time := clock s (ticks s), regex_cache := []\<rparr>"
  have 2: "same_index s s2" by (simp add: same_index_def s2_def)
  let ?parts = "map strip (filter (\<lambda>p. strip p \<noteq> []) (split CHR '';'' (strip query)))"
  obtain c s3 where pd: "parse_definitions (filter is_definition_clause ?parts) [] s2 = (c, s3)"
    by (cases "parse_definitions (filter is_definition_clause ?parts) [] s2")
  from 2 parse_definitions_frame [OF pd] have 3: "same_index s s3" by (rule same_index_trans)
  with ok have ok3: "index_ok s3" by (simp add: same_index_index_ok)
  from run pd have run': "(case c of
       Inl e \<Rightarrow> (Inl e, s3)
     | Inr variables \<Rightarrow>
         (case dispatch py variables (filter (\<lambda>part. \<not> is_definition_clause part) ?parts) s3 of
            (Inl TimeoutError, s4) \<Rightarrow> (Inr (None, ''timeout''), s4)
          | (Inl _, s4) \<Rightarrow> (Inr (Some [], ''error''), s4)
          | (Inr (results, result_type), s4) \<Rightarrow> (Inr (Some results, result_type), s4)))
     = (Inr (Some rs, rt), s')"
    by (simp add: execute_query_def time_time_def Let_def s2_def)
  show ?thesis
  proof (cases c)
    case (Inl e)
    with run' show ?thesis by simp
  next
    case (Inr variables)
    obtain d s4 where dp: "dispatch py variables
                             (filter (\<lambda>part. \<not> is_definition_clause part) ?parts) s3 = (d, s4)"
      by (cases "dispatch py variables (filter (\<lambda>part. \<not> is_definition_clause part) ?parts) s3")
    from run' Inr dp have "rs = [] \<or> d = Inr (rs, rt)"
      by (auto split: sum.splits exc.splits prod.splits)
    then have "\<forall>x \<in> set rs. in_index s3 x"
      using dp ok3 by (auto dest: dispatch_in_index)
    with 3 have "\<forall>x \<in> set rs. in_index s x" by (simp add: same_index_in_index)
    then show ?thesis
      by (auto simp: in_index_def split: option.splits)
  qed
qed

text \<open>
  The query \<^verbatim>\<open>A=(4:....);A;~A\<close> on the word list \<^verbatim>\<open>stop pots evil live noon\<close>:
  its first result names \<^verbatim>\<open>evil\<close> and \<^verbatim>\<open>live\<close>, both words of the list.
\<close>

theorem results_in_index_witness:
  "index_ok (PatternMatcher reversal_words 5 steady_clock 0)
   \<and> fst (execute_query re_model ''A=(4:....);A;~A'' (PatternMatcher reversal_words 5 steady_clock 0))
       = Inr (Some
           [(''evil'', Some ''live'', [(''A'', ''evil'')]),
            (''pots'', Some ''stop'', [(''A'', ''pots'')]),
            (''evil'', Some ''live'', [(''A'', ''evil'')]),
            (''live'', Some ''evil'', [(''A'', ''live'')]),
            (''noon'', Some ''noon'', [(''A'', ''noon'')]),
            (''pots'', Some ''stop'', [(''A'', ''pots'')]),
            (''stop'', Some ''pots'', [(''A'', ''stop'')])],
          ''equation'')
   \<and> ''evil'' \<in> words_set (PatternMatcher reversal_words 5 steady_clock 0)
   \<and> ''live'' \<in> words_set (PatternMatcher reversal_words 5 steady_clock 0)"
proof -
  let ?s = "PatternMatcher reversal_words 5 steady_clock 0"
  let ?rs = "[(''evil'', Some ''live'', [(''A'', ''evil'')]),
            (''pots'', Some ''stop'', [(''A'', ''pots'')]),
            (''evil'', Some ''live'', [(''A'', ''evil'')]),
            (''live'', Some ''evil'', [(''A'', ''live'')]),
            (''noon'', Some ''noon'', [(''A'', ''noon'')]),
            (''pots'', Some ''stop'', [(''A'', ''pots'')]),
            (''stop'', Some ''pots'', [(''A'', ''stop'')])]"
  have ok: "index_ok ?s"
    unfolding index_ok_def by code_simp
  have run: "fst (execute_query re_model ''A=(4:....);A;~A'' ?s) = Inr (Some ?rs, ''equation'')"
    by code_simp
  obtain r s' where rs: "execute_query re_model ''A=(4:....);A;~A'' ?s = (r, s')"
    by (cases "execute_query re_model ''A=(4:....);A;~A'' ?s")
  with run have "execute_query re_model ''A=(4:....);A;~A'' ?s = (Inr (Some ?rs, ''equation''), s')"
    by simp
  from results_in_index [OF ok this]
  have all: "\<forall>(primary, secondary, bindings) \<in> set ?rs.
            primary \<in> words_set ?s \<and> (\<forall>w. secondary = Some w \<longrightarrow> w \<in> words_set ?s)" .
  have "(''evil'', Some ''live'', [(''A'', ''evil'')]) \<in> set ?rs" by simp
  with all have "''evil'' \<in> words_set ?s \<and> (\<forall>w. Some ''live'' = Some w \<longrightarrow> w \<in> words_set ?s)"
    by blast
  then have "''evil'' \<in> words_set ?s" "''live'' \<in> words_set ?s" by blast+
  with ok run show ?thesis by blast
qed

subsection \<open>What \<^verbatim>\<open>load_wordlist\<close> establishes\<close>

lemma get_list_dict_append:
  "get_list (dict_append d k0 w) k = (if k = k0 then get_list d k0 @ [w] else get_list d k)"
  by (simp add: get_list_def dict_append_def update_conv')

lemma distinct_dict_append: "distinct (map fst d) \<Longrightarrow> distinct (map fst (dict_append d k w))"
  by (simp add: dict_append_def distinct_update)

lemma buckets_by_length:
  "distinct (map fst (foldl (\<lambda>d word. dict_append d (int (length word)) word) [] ws)) \<and>
   (\<forall>k. set (get_list (foldl (\<lambda>d word. dict_append d (int (length word)) word) [] ws) k)
          = {w \<in> set ws. int (length w) = k})"
proof (induction ws rule: rev_induct)
  case Nil
  show ?case by (simp add: get_list_def)
next
  case (snoc w ws)
  then show ?case
    by (auto simp: get_list_dict_append distinct_dict_append)
qed

lemma get_list_sorted_buckets:
  "get_list (map (\<lambda>(k, b). (k, sort b)) d) k = sort (get_list d k)"
  by (simp add: get_list_def map_of_map split: option.splits)

text \<open>The word list that \<^const>\<open>load_wordlist\<close> builds is well formed.\<close>

lemma load_wordlist_index_ok: "index_ok (load_wordlist file_lines)"
proof -
  define ws where
    "ws = filter (\<lambda>word. word \<noteq> [] \<and> isalpha word) (map (\<lambda>line. lower (strip line)) file_lines)"
  define d where "d = foldl (\<lambda>d word. dict_append d (int (length word)) word) [] ws"
  let ?wbl = "map (\<lambda>(k, b). (k, sort b)) d"
  have lw: "load_wordlist file_lines = \<lparr> wordlist = sort ws, word_by_length = ?wbl, words_set = set ws \<rparr>"
    by (simp add: load_wordlist_def Let_def ws_def d_def)
  from buckets_by_length [of ws] have dd: "distinct (map fst d)"
    and bk: "\<And>k. set (get_list d k) = {w \<in> set ws. int (length w) = k}"
    by (simp_all add: d_def)
  have keys: "map fst ?wbl = map fst d" by (induction d) auto
  have gl: "set (get_list ?wbl k) = {w \<in> set ws. int (length w) = k}" for k
    by (simp add: get_list_sorted_buckets bk)
  have 1: "distinct (map fst ?wbl)" unfolding keys by (rule dd)
  have 2: "\<forall>(k, b) \<in> set ?wbl. \<forall>w \<in> set b. int (length w) = k \<and> w \<in> set ws"
  proof (intro ballI, clarify)
    fix k b w
    assume kb: "(k, b) \<in> set ?wbl" and w: "w \<in> set b"
    from kb 1 have "map_of ?wbl k = Some b" by simp
    then have "get_list ?wbl k = b" by (simp add: get_list_def)
    with w gl [of k] show "int (length w) = k \<and> w \<in> set ws" by auto
  qed
  have 3: "\<forall>w \<in> set ws. w \<in> set (get_list ?wbl (int (length w)))"
    using gl by simp
  show ?thesis
    unfolding lw index_ok_def using 1 2 3 by simp
qed

end
